theory Spec2Isabelle
  imports Complex_Main "HOL-Library.Monad_Syntax" "HOL-Library.Word"
begin

section \<open>MCGPU: the parallel Metropolis engine (ParallelCalcs.cu and the Box class)\<close>

text \<open>
  A shallow embedding of \<^verbatim>\<open>src/Metropolis/ParallelSim/ParallelCalcs.cu\<close> and of the source
  of the \<^verbatim>\<open>Box\<close> class. Conventions of the model:
  \<^item> \<^verbatim>\<open>Real\<close> is the type of mathematical reals; rounding is not modelled. The square
    root is the total one of HOL; the kernel takes it of non-negative numbers only.
  \<^item> A division whose divisor is zero has no real value; it is the error \<open>None\<close>, so that
    the guards the source places before its divisions are visible in the model.
  \<^item> An array is a list; a read or write outside the array is the error \<open>None\<close>.
  \<^item> A device kernel is one function per thread, and a launch runs the threads of the
    grid one after the other in the order of their global index.
  \<^item> A C \<^verbatim>\<open>int\<close> is an \<open>int\<close>, and signed arithmetic is exact: a signed overflow is
    undefined in C, and the properties of index arithmetic are stated for sizes under
    which none occurs. The conversion of the unsigned global index of a thread to
    \<^verbatim>\<open>int\<close>, and the product a thread forms with that index, wrap at 32 bits; the wrap
    is written out (\<open>int32\<close>). The two counters of the driver are 32-bit words.
\<close>

subsection \<open>Data model\<close>

text \<open>
  Modelled from the spec: \<^verbatim>\<open>StructLibrary.h\<close> is not among the sources. The fields are
  those the source reads; the coordinates \<^verbatim>\<open>x, y, z\<close> of an atom and the box lengths
  \<^verbatim>\<open>x, y, z\<close> of the environment carry a prefix. The element types of the bond, angle,
  dihedral and hop arrays are left open.
\<close>

record Atom =
  atom_x :: real
  atom_y :: real
  atom_z :: real
  sigma :: real
  epsilon :: real
  charge :: real

record Environment =
  env_x :: real
  env_y :: real
  env_z :: real
  cutoff :: real
  temperature :: real
  primaryAtomIndex :: int
  numOfMolecules :: int

record ('b, 'g, 'd, 'h) Molecule =
  mol_id :: int
  numOfAtoms :: int
  numOfBonds :: int
  numOfAngles :: int
  numOfDihedrals :: int
  numOfHops :: int
  atoms :: "Atom list"
  bonds :: "'b list"
  angles :: "'g list"
  dihedrals :: "'d list"
  hops :: "'h list"

subsection \<open>Arithmetic and array access\<close>

definition rdiv :: "real \<Rightarrow> real \<Rightarrow> real option" where
  "rdiv a b = (if b = 0 then None else Some (a / b))"

definition int32 :: "int \<Rightarrow> int" where
  "int32 v = (v + 2147483648) mod 4294967296 - 2147483648"

definition rd :: "'a list \<Rightarrow> int \<Rightarrow> 'a option" where
  "rd xs i = (if 0 \<le> i \<and> i < int (length xs) then Some (xs ! nat i) else None)"

definition wr :: "'a list \<Rightarrow> int \<Rightarrow> 'a \<Rightarrow> 'a list option" where
  "wr xs i v = (if 0 \<le> i \<and> i < int (length xs) then Some (xs[nat i := v]) else None)"

subsection \<open>Periodic geometry and the pair potential\<close>

text \<open>
  \<^verbatim>\<open>makePeriodic\<close>, lines 207-222: two \<^verbatim>\<open>while\<close> statements, each of which may run
  forever.
\<close>

partial_function (option) makePeriodic_up :: "real \<Rightarrow> real \<Rightarrow> real option" where
  "makePeriodic_up v box =
     (if v < - 0.5 * box then makePeriodic_up (v + box) box else Some v)"

partial_function (option) makePeriodic_down :: "real \<Rightarrow> real \<Rightarrow> real option" where
  "makePeriodic_down v box =
     (if v > 0.5 * box then makePeriodic_down (v - box) box else Some v)"

definition makePeriodic :: "real \<Rightarrow> real \<Rightarrow> real option" where
  "makePeriodic v box = makePeriodic_up v box \<bind> (\<lambda>v'. makePeriodic_down v' box)"

definition calcBlending :: "real \<Rightarrow> real \<Rightarrow> real" where
  "calcBlending d1 d2 = sqrt (d1 * d2)"

text \<open>\<^verbatim>\<open>calc_lj\<close>, lines 172-191.\<close>

definition calc_lj :: "Atom \<Rightarrow> Atom \<Rightarrow> real \<Rightarrow> real option" where
  "calc_lj atom1 atom2 r2 =
     (let sigma' = calcBlending (sigma atom1) (sigma atom2);
          epsilon' = calcBlending (epsilon atom1) (epsilon atom2)
      in if r2 = 0 then Some 0
         else do {
           sig2OverR2 \<leftarrow> rdiv (sigma' * sigma') r2;
           let sig6OverR6 = sig2OverR2 * sig2OverR2 * sig2OverR2;
           let sig12OverR12 = sig6OverR6 * sig6OverR6;
           Some (4 * epsilon' * (sig12OverR12 - sig6OverR6))
         })"

text \<open>\<^verbatim>\<open>calcCharge\<close>, lines 193-205.\<close>

definition calcCharge :: "real \<Rightarrow> real \<Rightarrow> real \<Rightarrow> real option" where
  "calcCharge charge1 charge2 r =
     (if r = 0 then Some 0
      else rdiv (charge1 * charge2 * 332.06) r)"

subsection \<open>The acceptance rule of the driver\<close>

text \<open>
  Lines 264-282 of \<^verbatim>\<open>runParallel\<close>: the decision taken from the two energy contributions,
  \<^verbatim>\<open>kT\<close> and the value \<open>u\<close> that \<^verbatim>\<open>randomFloat(0.0, 1.0)\<close> returns in this step.
\<close>

definition acceptMove :: "real \<Rightarrow> real \<Rightarrow> real \<Rightarrow> real \<Rightarrow> bool option" where
  "acceptMove newEnergyCont oldEnergyCont kT u =
     (if newEnergyCont < oldEnergyCont then Some True
      else do {
        q \<leftarrow> rdiv (- (newEnergyCont - oldEnergyCont)) kT;
        let v = exp q;
        if v \<ge> u then Some True else Some False
      })"

subsection \<open>The molecular state store (Box)\<close>

text \<open>
  The contents of a block that \<^verbatim>\<open>malloc\<close> has just returned are indeterminate: every
  element of a fresh array holds the value given here for its type.
\<close>

record ('b, 'g, 'd, 'h) Uninit =
  u_atom :: Atom
  u_bond :: 'b
  u_angle :: 'g
  u_dihedral :: 'd
  u_hop :: 'h

text \<open>The members of \<^verbatim>\<open>Box\<close> that checkpoint and rollback use.\<close>

record ('b, 'g, 'd, 'h) Box =
  molecules :: "('b, 'g, 'd, 'h) Molecule list"
  changedmole :: "('b, 'g, 'd, 'h) Molecule"

definition malloc :: "'a \<Rightarrow> int \<Rightarrow> 'a list" where
  "malloc junk n = replicate (nat n) junk"

text \<open>
  One copy loop of \<^verbatim>\<open>copyMolecule\<close>:
  \<^verbatim>\<open>for (int i = 0; i < n; i++) dst[i] = src[i];\<close>, entered at index \<open>i\<close>.
\<close>

function copyElems :: "int \<Rightarrow> int \<Rightarrow> 'a list \<Rightarrow> 'a list \<Rightarrow> 'a list option" where
  "copyElems i n dst src =
     (if i < n then
        (case rd src i of None \<Rightarrow> None
         | Some v \<Rightarrow>
            (case wr dst i v of None \<Rightarrow> None
             | Some dst' \<Rightarrow> copyElems (i + 1) n dst' src))
      else Some dst)"
  by pat_completeness auto
termination
  by (relation "measure (\<lambda>(i, n, dst, src). nat (n - i))") auto

declare copyElems.simps [simp del]

text \<open>\<^verbatim>\<open>Box::copyMolecule\<close>, lines 107-142 of the source of \<^verbatim>\<open>Box\<close>.\<close>

definition copyMolecule ::
  "('b, 'g, 'd, 'h) Molecule \<Rightarrow> ('b, 'g, 'd, 'h) Molecule \<Rightarrow> ('b, 'g, 'd, 'h) Molecule option"
where
  "copyMolecule mole_dst mole_src = do {
     let d = mole_dst\<lparr>numOfAtoms := numOfAtoms mole_src,
                      numOfBonds := numOfBonds mole_src,
                      numOfAngles := numOfAngles mole_src,
                      numOfDihedrals := numOfDihedrals mole_src,
                      numOfHops := numOfHops mole_src,
                      mol_id := mol_id mole_src\<rparr>;
     as \<leftarrow> copyElems 0 (numOfAtoms mole_src) (atoms d) (atoms mole_src);
     bs \<leftarrow> copyElems 0 (numOfBonds mole_src) (bonds d) (bonds mole_src);
     gs \<leftarrow> copyElems 0 (numOfAngles mole_src) (angles d) (angles mole_src);
     ds \<leftarrow> copyElems 0 (numOfDihedrals mole_src) (dihedrals d) (dihedrals mole_src);
     hs \<leftarrow> copyElems 0 (numOfHops mole_src) (hops d) (hops mole_src);
     Some (d\<lparr>atoms := as, bonds := bs, angles := gs, dihedrals := ds, hops := hs\<rparr>)
   }"

text \<open>\<^verbatim>\<open>Box::Rollback\<close>, lines 78-81.\<close>

definition Rollback :: "('b, 'g, 'd, 'h) Box \<Rightarrow> int \<Rightarrow> ('b, 'g, 'd, 'h) Box option" where
  "Rollback box moleno = do {
     mole_dst \<leftarrow> rd (molecules box) moleno;
     m \<leftarrow> copyMolecule mole_dst (changedmole box);
     ms \<leftarrow> wr (molecules box) moleno m;
     Some (box\<lparr>molecules := ms\<rparr>)
   }"

text \<open>
  \<^verbatim>\<open>Box::saveChangedMole\<close>, lines 83-105: the old arrays of \<^verbatim>\<open>changedmole\<close> are freed, the
  struct is overwritten by \<^verbatim>\<open>memcpy\<close>, its five array pointers are replaced by fresh
  blocks sized by the source's counts, and \<^verbatim>\<open>copyMolecule\<close> fills them.
\<close>

definition saveChangedMole ::
  "('b, 'g, 'd, 'h) Uninit \<Rightarrow> ('b, 'g, 'd, 'h) Box \<Rightarrow> int \<Rightarrow> ('b, 'g, 'd, 'h) Box option"
where
  "saveChangedMole u box moleno = do {
     mole_src \<leftarrow> rd (molecules box) moleno;
     let c = mole_src;
     let c = c\<lparr>atoms := malloc (u_atom u) (numOfAtoms mole_src),
               bonds := malloc (u_bond u) (numOfBonds mole_src),
               angles := malloc (u_angle u) (numOfAngles mole_src),
               dihedrals := malloc (u_dihedral u) (numOfDihedrals mole_src),
               hops := malloc (u_hop u) (numOfHops mole_src)\<rparr>;
     c' \<leftarrow> copyMolecule c mole_src;
     Some (box\<lparr>changedmole := c'\<rparr>)
   }"

text \<open>
  The observable state of a molecule: its id, its five counts and, of each of its five
  arrays, the elements below the count.
\<close>

definition observable ::
  "('b, 'g, 'd, 'h) Molecule \<Rightarrow>
   int \<times> int \<times> int \<times> int \<times> int \<times> int \<times> Atom list \<times> 'b list \<times> 'g list \<times> 'd list \<times> 'h list"
where
  "observable m =
     (mol_id m, numOfAtoms m, numOfBonds m, numOfAngles m, numOfDihedrals m, numOfHops m,
      take (nat (numOfAtoms m)) (atoms m), take (nat (numOfBonds m)) (bonds m),
      take (nat (numOfAngles m)) (angles m), take (nat (numOfDihedrals m)) (dihedrals m),
      take (nat (numOfHops m)) (hops m))"

text \<open>Every count is at most the length of the array it counts.\<close>

definition countsFit :: "('b, 'g, 'd, 'h) Molecule \<Rightarrow> bool" where
  "countsFit m \<longleftrightarrow>
     numOfAtoms m \<le> int (length (atoms m)) \<and> numOfBonds m \<le> int (length (bonds m)) \<and>
     numOfAngles m \<le> int (length (angles m)) \<and>
     numOfDihedrals m \<le> int (length (dihedrals m)) \<and> numOfHops m \<le> int (length (hops m))"

text \<open>
  Two values of a molecule whose arrays occupy the same storage: an in-place mutation
  changes fields and elements, never the length of an array.
\<close>

definition sameArrays :: "('b, 'g, 'd, 'h) Molecule \<Rightarrow> ('b, 'g, 'd, 'h) Molecule \<Rightarrow> bool" where
  "sameArrays m' m \<longleftrightarrow>
     length (atoms m') = length (atoms m) \<and> length (bonds m') = length (bonds m) \<and>
     length (angles m') = length (angles m) \<and>
     length (dihedrals m') = length (dihedrals m) \<and> length (hops m') = length (hops m)"


subsection \<open>Host and device primitives\<close>

text \<open>
  Modelled from the spec: \<^verbatim>\<open>ParallelCalcs.h\<close> is not among the sources; the block sizes,
  the flag values and Boltzmann's constant that it defines are parameters of the model.
\<close>

record Config =
  MOL_BLOCK :: int
  BATCH_BLOCK :: int
  AGG_BLOCK :: int
  MAX_WARP :: int
  YES :: int
  NO :: int
  kBoltz :: real

text \<open>Division and remainder of C: the quotient is truncated towards zero.\<close>

definition cdiv :: "int \<Rightarrow> int \<Rightarrow> int option" where
  "cdiv a b = (if b = 0 then None else Some (sgn a * sgn b * (\<bar>a\<bar> div \<bar>b\<bar>)))"

definition cmod :: "int \<Rightarrow> int \<Rightarrow> int option" where
  "cmod a b = (if b = 0 then None else Some (sgn a * (\<bar>a\<bar> mod \<bar>b\<bar>)))"

text \<open>
  \<^verbatim>\<open>memset\<close> writes one byte value into every byte; \<open>memset_int v\<close> is the \<^verbatim>\<open>int\<close> whose
  four bytes all hold \<open>v\<close>. The length \<open>n\<close> of the two array operations is counted in
  elements.
\<close>

definition memset_int :: "int \<Rightarrow> int" where
  "memset_int v = int32 ((v mod 256) * 16843009)"

definition memset_ints :: "int list \<Rightarrow> int \<Rightarrow> int \<Rightarrow> int list option" where
  "memset_ints xs v n =
     (if 0 \<le> n \<and> n \<le> int (length xs)
      then Some (replicate (nat n) (memset_int v) @ drop (nat n) xs) else None)"

definition memcpy_n :: "'a list \<Rightarrow> 'a list \<Rightarrow> int \<Rightarrow> 'a list option" where
  "memcpy_n dst src n =
     (if 0 \<le> n \<and> n \<le> int (length dst) \<and> n \<le> int (length src)
      then Some (take (nat n) src @ drop (nat n) dst) else None)"

text \<open>
  A kernel launch \<^verbatim>\<open>kernel<<<blocks, threads>>>\<close> on the memory the kernel writes. The
  thread with global index \<open>tid\<close> is \<open>thread tid\<close>; the threads run in the order of their
  index, and a failing thread fails the launch. A launch with no block or no thread is
  the error \<open>None\<close>. The limits of a device on the size of a grid are not modelled.
\<close>

definition launch :: "int \<Rightarrow> int \<Rightarrow> (nat \<Rightarrow> 'a \<Rightarrow> 'a option) \<Rightarrow> 'a \<Rightarrow> 'a option" where
  "launch blocks threads thread mem =
     (if blocks \<le> 0 \<or> threads \<le> 0 then None
      else fold (\<lambda>tid m. m \<bind> thread tid) [0..<nat (blocks * threads)] (Some mem))"

subsection \<open>The kernels\<close>

text \<open>
  The squared distance of two atoms as both kernels compute it, lines 108-114 and again
  lines 141-147.
\<close>

definition periodicR2 :: "Atom \<Rightarrow> Atom \<Rightarrow> Environment \<Rightarrow> real option" where
  "periodicR2 atom1 atom2 enviro = do {
     deltaX \<leftarrow> makePeriodic (atom_x atom1 - atom_x atom2) (env_x enviro);
     deltaY \<leftarrow> makePeriodic (atom_y atom1 - atom_y atom2) (env_y enviro);
     deltaZ \<leftarrow> makePeriodic (atom_z atom1 - atom_z atom2) (env_z enviro);
     Some ((deltaX * deltaX) + (deltaY * deltaY) + (deltaZ * deltaZ))
   }"

text \<open>\<^verbatim>\<open>checkMoleculeDistances\<close>, lines 98-121, for the thread \<open>tid\<close>.\<close>

definition checkMoleculeDistances ::
  "Config \<Rightarrow> ('b, 'g, 'd, 'h) Molecule list \<Rightarrow> int \<Rightarrow> int \<Rightarrow> int \<Rightarrow> Environment \<Rightarrow>
   nat \<Rightarrow> int list \<Rightarrow> int list option"
where
  "checkMoleculeDistances c mols currentMol startIdx moleculeCount enviro tid inCutoff =
     (let otherMol = int32 (int tid)
      in if otherMol < moleculeCount \<and> otherMol \<ge> startIdx \<and> otherMol \<noteq> currentMol
         then do {
           mol1 \<leftarrow> rd mols currentMol;
           atom1 \<leftarrow> rd (atoms mol1) (primaryAtomIndex enviro);
           mol2 \<leftarrow> rd mols otherMol;
           atom2 \<leftarrow> rd (atoms mol2) (primaryAtomIndex enviro);
           r2 \<leftarrow> periodicR2 atom1 atom2 enviro;
           if r2 < cutoff enviro * cutoff enviro
           then wr inCutoff otherMol (YES c)
           else Some inCutoff
         }
         else Some inCutoff)"

text \<open>\<^verbatim>\<open>calcInterAtomicEnergy\<close>, lines 123-156, for the thread \<open>tid\<close>.\<close>

definition calcInterAtomicEnergy ::
  "('b, 'g, 'd, 'h) Molecule list \<Rightarrow> int \<Rightarrow> Environment \<Rightarrow> int \<Rightarrow> int list \<Rightarrow> int \<Rightarrow>
   nat \<Rightarrow> real list \<Rightarrow> real list option"
where
  "calcInterAtomicEnergy mols currentMol enviro energyCount molBatch maxMolSize tid energies =
     (let energyIdx = int32 (int tid); segmentSize = maxMolSize * maxMolSize
      in if energyIdx < energyCount
         then do {
           slot \<leftarrow> cdiv energyIdx segmentSize;
           other \<leftarrow> rd molBatch slot;
           if other \<noteq> - 1
           then do {
             mol1 \<leftarrow> rd mols currentMol;
             mol2 \<leftarrow> rd mols other;
             cell \<leftarrow> cmod energyIdx segmentSize;
             ax \<leftarrow> cdiv cell maxMolSize;
             ay \<leftarrow> cmod cell maxMolSize;
             if ax < numOfAtoms mol1 \<and> ay < numOfAtoms mol2
             then do {
               atom1 \<leftarrow> rd (atoms mol1) ax;
               atom2 \<leftarrow> rd (atoms mol2) ay;
               if sigma atom1 \<ge> 0 \<and> epsilon atom1 \<ge> 0 \<and> sigma atom2 \<ge> 0 \<and> epsilon atom2 \<ge> 0
               then do {
                 r2 \<leftarrow> periodicR2 atom1 atom2 enviro;
                 lj \<leftarrow> calc_lj atom1 atom2 r2;
                 coulomb \<leftarrow> calcCharge (charge atom1) (charge atom2) (sqrt r2);
                 wr energies energyIdx (0 + lj + coulomb)
               }
               else Some energies
             }
             else Some energies
           }
           else Some energies
         }
         else Some energies)"

text \<open>
  \<^verbatim>\<open>aggregateEnergies\<close>, lines 158-170: the loop of one thread, entered at \<open>i\<close>, and the
  thread \<open>tid\<close>. The index \<^verbatim>\<open>idx\<close> is a product with the unsigned global index and
  wraps.
\<close>

function aggregateEnergies_loop ::
  "int \<Rightarrow> int \<Rightarrow> int \<Rightarrow> int \<Rightarrow> int \<Rightarrow> real list \<Rightarrow> real list option"
where
  "aggregateEnergies_loop energyCount interval batchSize idx i energies =
     (if i < batchSize
      then if idx + i * interval < energyCount
           then (case rd energies idx of None \<Rightarrow> None
                 | Some a \<Rightarrow>
                (case rd energies (idx + i * interval) of None \<Rightarrow> None
                 | Some b \<Rightarrow>
                (case wr energies idx (a + b) of None \<Rightarrow> None
                 | Some e1 \<Rightarrow>
                (case wr e1 (idx + i * interval) 0 of None \<Rightarrow> None
                 | Some e2 \<Rightarrow>
                    aggregateEnergies_loop energyCount interval batchSize idx (i + 1) e2))))
           else aggregateEnergies_loop energyCount interval batchSize idx (i + 1) energies
      else Some energies)"
  by pat_completeness auto
termination
  by (relation "measure (\<lambda>(energyCount, interval, batchSize, idx, i, energies).
                  nat (batchSize - i))") auto

declare aggregateEnergies_loop.simps [simp del]

definition aggregateEnergies :: "int \<Rightarrow> int \<Rightarrow> int \<Rightarrow> nat \<Rightarrow> real list \<Rightarrow> real list option" where
  "aggregateEnergies energyCount interval batchSize tid energies =
     (let idx = int32 (batchSize * interval * int tid)
      in aggregateEnergies_loop energyCount interval batchSize idx 1 energies)"

subsection \<open>The engine (ParallelSim)\<close>

text \<open>
  The members of \<^verbatim>\<open>ParallelSim\<close> that the source reads and writes. The counters are 32-bit
  integers. The field \<open>eventLog\<close> is not in the source: every run of
  \<^verbatim>\<open>calcSystemEnergy\<close> and every iteration of the step loop appends an entry, so that
  their number and order can be stated.
\<close>

datatype Event = FullSystemEnergy | Step int

record ('b, 'g, 'd, 'h) ParallelSim =
  moleculeCount :: int
  energyCount :: int
  maxMolSize :: int
  moleculesD :: "('b, 'g, 'd, 'h) Molecule list"
  environmentD :: Environment
  environment :: Environment
  nbrMolsH :: "int list"
  nbrMolsD :: "int list"
  molBatchH :: "int list"
  molBatchD :: "int list"
  energiesD :: "real list"
  innerbox :: "('b, 'g, 'd, 'h) Box"
  oldEnergy :: real
  currentEnergy :: real
  accepted :: "32 word"
  rejected :: "32 word"
  eventLog :: "Event list"

text \<open>The loop of \<^verbatim>\<open>getEnergyFromDevice\<close>, lines 82-90, entered at \<open>i\<close>.\<close>

partial_function (option) getEnergyFromDevice_loop ::
  "Config \<Rightarrow> int \<Rightarrow> int \<Rightarrow> int \<Rightarrow> int \<Rightarrow> int \<Rightarrow> real list \<Rightarrow> real list option"
where
  "getEnergyFromDevice_loop c energyCount' batchSize numBaseThreads i blockSize energies =
     (if i < energyCount'
      then do {
        blockSize' \<leftarrow>
          (if blockSize > MAX_WARP c
           then do {
             q \<leftarrow> cdiv numBaseThreads i;
             if q + 1 < blockSize then cdiv blockSize 2 else Some blockSize
           }
           else Some blockSize);
        blocks \<leftarrow> cdiv numBaseThreads (i * blockSize');
        energies' \<leftarrow> launch (blocks + 1) blockSize'
                       (aggregateEnergies energyCount' i batchSize) energies;
        getEnergyFromDevice_loop c energyCount' batchSize numBaseThreads
          (i * batchSize) blockSize' energies'
      }
      else Some energies)"

text \<open>\<^verbatim>\<open>ParallelSim::getEnergyFromDevice\<close>, lines 75-96.\<close>

definition getEnergyFromDevice ::
  "Config \<Rightarrow> ('b, 'g, 'd, 'h) ParallelSim \<Rightarrow> (real \<times> ('b, 'g, 'd, 'h) ParallelSim) option"
where
  "getEnergyFromDevice c s = do {
     let batchSize = 3;
     let blockSize = AGG_BLOCK c;
     numBaseThreads \<leftarrow> cdiv (energyCount s) batchSize;
     e \<leftarrow> getEnergyFromDevice_loop c (energyCount s) batchSize numBaseThreads 1 blockSize
            (energiesD s);
     totalEnergy \<leftarrow> rd e 0;
     e' \<leftarrow> wr e 0 0;
     Some (totalEnergy, s\<lparr>energiesD := e'\<rparr>)
   }"

text \<open>The compaction loop of \<^verbatim>\<open>createMolBatch\<close>, lines 44-50, entered at \<open>i\<close>.\<close>

function createMolBatch_loop ::
  "Config \<Rightarrow> int \<Rightarrow> int list \<Rightarrow> int \<Rightarrow> int list \<Rightarrow> int \<Rightarrow> (int \<times> int list) option"
where
  "createMolBatch_loop c moleculeCount' nbrMols i molBatch batchSize =
     (if i < moleculeCount'
      then (case rd nbrMols i of None \<Rightarrow> None
            | Some flag \<Rightarrow>
                if flag = YES c
                then (case wr molBatch batchSize i of None \<Rightarrow> None
                      | Some molBatch' \<Rightarrow>
                          createMolBatch_loop c moleculeCount' nbrMols (i + 1) molBatch'
                            (batchSize + 1))
                else createMolBatch_loop c moleculeCount' nbrMols (i + 1) molBatch batchSize)
      else Some (batchSize, molBatch))"
  by pat_completeness auto
termination
  by (relation "measure (\<lambda>(c, moleculeCount', nbrMols, i, molBatch, batchSize).
                  nat (moleculeCount' - i))") auto

declare createMolBatch_loop.simps [simp del]

text \<open>\<^verbatim>\<open>ParallelSim::createMolBatch\<close>, lines 31-53.\<close>

definition createMolBatch ::
  "Config \<Rightarrow> ('b, 'g, 'd, 'h) ParallelSim \<Rightarrow> int \<Rightarrow> int \<Rightarrow>
   (int \<times> ('b, 'g, 'd, 'h) ParallelSim) option"
where
  "createMolBatch c s curentMol startIdx = do {
     nbrD \<leftarrow> memset_ints (nbrMolsD s) (NO c) (moleculeCount s);
     blocks \<leftarrow> cdiv (moleculeCount s) (MOL_BLOCK c);
     nbrD' \<leftarrow> launch (blocks + 1) (MOL_BLOCK c)
                (checkMoleculeDistances c (moleculesD s) curentMol startIdx (moleculeCount s)
                   (environmentD s)) nbrD;
     nbrH \<leftarrow> memcpy_n (nbrMolsH s) nbrD' (moleculeCount s);
     batchH \<leftarrow> memset_ints (molBatchH s) (- 1) (moleculeCount s);
     (batchSize, batchH') \<leftarrow> createMolBatch_loop c (moleculeCount s) nbrH startIdx batchH 0;
     Some (batchSize, s\<lparr>nbrMolsD := nbrD', nbrMolsH := nbrH, molBatchH := batchH'\<rparr>)
   }"

text \<open>\<^verbatim>\<open>ParallelSim::calcBatchEnergy\<close>, lines 55-73.\<close>

definition calcBatchEnergy ::
  "Config \<Rightarrow> ('b, 'g, 'd, 'h) ParallelSim \<Rightarrow> int \<Rightarrow> int \<Rightarrow>
   (real \<times> ('b, 'g, 'd, 'h) ParallelSim) option"
where
  "calcBatchEnergy c s numMols molIdx =
     (if numMols > 0
      then do {
        e \<leftarrow> wr (energiesD s) 0 0;
        batchD \<leftarrow> memcpy_n (molBatchD s) (molBatchH s) (moleculeCount s);
        blocks \<leftarrow> cdiv (energyCount s) (BATCH_BLOCK c);
        e' \<leftarrow> launch (blocks + 1) (BATCH_BLOCK c)
                (calcInterAtomicEnergy (moleculesD s) molIdx (environmentD s) (energyCount s)
                   batchD (maxMolSize s)) e;
        getEnergyFromDevice c (s\<lparr>energiesD := e', molBatchD := batchD\<rparr>)
      }
      else Some (0, s))"

text \<open>\<^verbatim>\<open>ParallelSim::calcMolecularEnergyContribution\<close>, lines 26-29.\<close>

definition calcMolecularEnergyContribution ::
  "Config \<Rightarrow> ('b, 'g, 'd, 'h) ParallelSim \<Rightarrow> int \<Rightarrow> int \<Rightarrow>
   (real \<times> ('b, 'g, 'd, 'h) ParallelSim) option"
where
  "calcMolecularEnergyContribution c s molIdx startIdx = do {
     (numMols, s') \<leftarrow> createMolBatch c s molIdx startIdx;
     calcBatchEnergy c s' numMols molIdx
   }"

subsection \<open>The Metropolis driver\<close>

text \<open>
  The random draws of one step: the index that \<^verbatim>\<open>chooseMolecule\<close> returns, the
  perturbation that \<^verbatim>\<open>changeMolecule\<close> applies and the value that
  \<^verbatim>\<open>randomFloat(0.0, 1.0)\<close> returns.

  Modelled from the spec: \<^verbatim>\<open>randomReal\<close>, \<^verbatim>\<open>moveMolecule\<close> and \<^verbatim>\<open>wrapBox\<close> are not among the
  sources. For the draws of one step, lines 46-60 of \<^verbatim>\<open>changeMolecule\<close> rotate, translate
  and wrap the atoms of the molecule in place; \<open>perturb\<close> gives, from the atom array
  before the move, the new value of the atom at each index.
\<close>

record Draws =
  chosen :: int
  perturb :: "Atom list \<Rightarrow> nat \<Rightarrow> Atom"
  uniform :: real

text \<open>\<^verbatim>\<open>Box::changeMolecule\<close>, lines 38-63.\<close>

definition changeMolecule ::
  "('b, 'g, 'd, 'h) Uninit \<Rightarrow> (Atom list \<Rightarrow> nat \<Rightarrow> Atom) \<Rightarrow> ('b, 'g, 'd, 'h) Box \<Rightarrow> int \<Rightarrow>
   ('b, 'g, 'd, 'h) Box option"
where
  "changeMolecule u move box molIdx = do {
     box' \<leftarrow> saveChangedMole u box molIdx;
     m \<leftarrow> rd (molecules box') molIdx;
     ms \<leftarrow> wr (molecules box') molIdx
            (m\<lparr>atoms := map (move (atoms m)) [0..<length (atoms m)]\<rparr>);
     Some (box'\<lparr>molecules := ms\<rparr>)
   }"

text \<open>
  Modelled from the spec: \<^verbatim>\<open>writeChangeToDevice\<close> is not among the sources. It makes the
  host's molecule \<open>changeIdx\<close> the engine-visible one on the device.
\<close>

definition writeChangeToDevice ::
  "('b, 'g, 'd, 'h) ParallelSim \<Rightarrow> int \<Rightarrow> ('b, 'g, 'd, 'h) ParallelSim option"
where
  "writeChangeToDevice s changeIdx = do {
     m \<leftarrow> rd (molecules (innerbox s)) changeIdx;
     ms \<leftarrow> wr (moleculesD s) changeIdx m;
     Some (s\<lparr>moleculesD := ms\<rparr>)
   }"

text \<open>
  The loop of \<^verbatim>\<open>ParallelSim::calcSystemEnergy\<close>, lines 18-21, entered at \<open>mol\<close>. The loop
  runs while \<open>mol\<close> is below \<open>moleculeCount\<close>, which no energy evaluation changes; the
  bound is passed as \<open>n\<close>.
\<close>

function calcSystemEnergy_loop ::
  "Config \<Rightarrow> int \<Rightarrow> int \<Rightarrow> real \<Rightarrow> ('b, 'g, 'd, 'h) ParallelSim \<Rightarrow>
   (real \<times> ('b, 'g, 'd, 'h) ParallelSim) option"
where
  "calcSystemEnergy_loop c n mol totalEnergy s =
     (if mol < n
      then (case calcMolecularEnergyContribution c s mol mol of None \<Rightarrow> None
            | Some (e, s') \<Rightarrow> calcSystemEnergy_loop c n (mol + 1) (totalEnergy + e) s')
      else Some (totalEnergy, s))"
  by pat_completeness auto
termination
  by (relation "measure (\<lambda>(c, n, mol, totalEnergy, s). nat (n - mol))") auto

declare calcSystemEnergy_loop.simps [simp del]

text \<open>\<^verbatim>\<open>ParallelSim::calcSystemEnergy\<close>, lines 13-24; the run is entered in the log.\<close>

definition calcSystemEnergy ::
  "Config \<Rightarrow> ('b, 'g, 'd, 'h) ParallelSim \<Rightarrow> (real \<times> ('b, 'g, 'd, 'h) ParallelSim) option"
where
  "calcSystemEnergy c s =
     calcSystemEnergy_loop c (moleculeCount s) 0 0
       (s\<lparr>eventLog := eventLog s @ [FullSystemEnergy]\<rparr>)"

text \<open>
  One iteration of the loop of \<^verbatim>\<open>runParallel\<close>, lines 255-295. The call
  \<^verbatim>\<open>calcMolecularEnergyContribution(changeIdx)\<close> leaves the start index to its default.

  Modelled from the spec: the default is declared in \<^verbatim>\<open>ParallelCalcs.h\<close>, which is not
  among the sources; the specification evaluates both contributions from start index 0.
\<close>

definition runParallel_step ::
  "Config \<Rightarrow> ('b, 'g, 'd, 'h) Uninit \<Rightarrow> real \<Rightarrow> Draws \<Rightarrow> ('b, 'g, 'd, 'h) ParallelSim \<Rightarrow>
   ('b, 'g, 'd, 'h) ParallelSim option"
where
  "runParallel_step c u kT d s = do {
     let changeIdx = chosen d;
     (oldEnergyCont, s1) \<leftarrow> calcMolecularEnergyContribution c s changeIdx 0;
     box \<leftarrow> changeMolecule u (perturb d) (innerbox s1) changeIdx;
     s2 \<leftarrow> writeChangeToDevice (s1\<lparr>innerbox := box\<rparr>) changeIdx;
     (newEnergyCont, s3) \<leftarrow> calcMolecularEnergyContribution c s2 changeIdx 0;
     accept \<leftarrow> acceptMove newEnergyCont oldEnergyCont kT (uniform d);
     if accept
     then Some (s3\<lparr>accepted := accepted s3 + 1,
                  oldEnergy := oldEnergy s3 + (newEnergyCont - oldEnergyCont)\<rparr>)
     else do {
       box' \<leftarrow> Rollback (innerbox s3) changeIdx;
       writeChangeToDevice (s3\<lparr>rejected := rejected s3 + 1, innerbox := box'\<rparr>) changeIdx
     }
   }"

text \<open>
  The loop of \<^verbatim>\<open>runParallel\<close>, lines 253-296, entered at \<open>move\<close>; every iteration is entered
  in the log.
\<close>

function runParallel_loop ::
  "Config \<Rightarrow> ('b, 'g, 'd, 'h) Uninit \<Rightarrow> real \<Rightarrow> (nat \<Rightarrow> Draws) \<Rightarrow> int \<Rightarrow> int \<Rightarrow>
   ('b, 'g, 'd, 'h) ParallelSim \<Rightarrow> ('b, 'g, 'd, 'h) ParallelSim option"
where
  "runParallel_loop c u kT draws steps move s =
     (if move < steps
      then (case runParallel_step c u kT (draws (nat move))
                   (s\<lparr>eventLog := eventLog s @ [Step move]\<rparr>) of
              None \<Rightarrow> None
            | Some s' \<Rightarrow> runParallel_loop c u kT draws steps (move + 1) s')
      else Some s)"
  by pat_completeness auto
termination
  by (relation "measure (\<lambda>(c, u, kT, draws, steps, move, s). nat (steps - move))") auto

declare runParallel_loop.simps [simp del]

text \<open>\<^verbatim>\<open>ParallelSim::runParallel\<close>, lines 242-298.\<close>

definition runParallel ::
  "Config \<Rightarrow> ('b, 'g, 'd, 'h) Uninit \<Rightarrow> (nat \<Rightarrow> Draws) \<Rightarrow> int \<Rightarrow> ('b, 'g, 'd, 'h) ParallelSim \<Rightarrow>
   ('b, 'g, 'd, 'h) ParallelSim option"
where
  "runParallel c u draws steps s = do {
     let kT = kBoltz c * temperature (environment s);
     s1 \<leftarrow> (if oldEnergy s = 0
            then do {
              (e, s') \<leftarrow> calcSystemEnergy c s;
              Some (s'\<lparr>oldEnergy := e\<rparr>)
            }
            else Some s);
     s2 \<leftarrow> runParallel_loop c u kT draws steps 0 s1;
     Some (s2\<lparr>currentEnergy := oldEnergy s2\<rparr>)
   }"

subsection \<open>Notions used to state the properties\<close>

text \<open>
  The minimum-image displacement as the specification words it, with no reference to the
  loops of \<^verbatim>\<open>makePeriodic\<close>: of the values that differ from \<open>d\<close> by an integer multiple of
  the box length \<open>L\<close>, one nearest to 0, which is \<open>d\<close> less the multiple of \<open>L\<close> nearest to
  \<open>d\<close>. The squared minimum-image distance of two atoms is the sum over the three axes of
  the squares of the minimum-image displacements of their coordinate differences.
\<close>

definition minimumImage :: "real \<Rightarrow> real \<Rightarrow> real" where
  "minimumImage d L = d - L * of_int (round (d / L))"

definition minimumImageR2 :: "Atom \<Rightarrow> Atom \<Rightarrow> Environment \<Rightarrow> real" where
  "minimumImageR2 atom1 atom2 enviro =
     (minimumImage (atom_x atom1 - atom_x atom2) (env_x enviro))\<^sup>2
     + (minimumImage (atom_y atom1 - atom_y atom2) (env_y enviro))\<^sup>2
     + (minimumImage (atom_z atom1 - atom_z atom2) (env_z enviro))\<^sup>2"

text \<open>
  Molecule \<open>c\<close> is within the cutoff of molecule \<open>m\<close>: the squared minimum-image distance
  of their primary atoms is strictly below the squared cutoff.
\<close>

definition withinCutoff ::
  "('b, 'g, 'd, 'h) Molecule list \<Rightarrow> Environment \<Rightarrow> int \<Rightarrow> int \<Rightarrow> bool"
where
  "withinCutoff mols enviro m c =
     (case do {
             mol1 \<leftarrow> rd mols m;
             atom1 \<leftarrow> rd (atoms mol1) (primaryAtomIndex enviro);
             mol2 \<leftarrow> rd mols c;
             atom2 \<leftarrow> rd (atoms mol2) (primaryAtomIndex enviro);
             Some (minimumImageR2 atom1 atom2 enviro)
           } of
        None \<Rightarrow> False
      | Some r2 \<Rightarrow> r2 < cutoff enviro * cutoff enviro)"

text \<open>
  The state in which \<^verbatim>\<open>createMolBatch\<close> may be called: the device holds \<open>moleculeCount\<close>
  molecules, each with a primary atom; the flag and batch arrays have one element per
  molecule; the box lengths are positive; the block size is positive and the grid small
  enough for a thread index to fit an \<^verbatim>\<open>int\<close>; and the flag \<^verbatim>\<open>YES\<close> differs from
  the value that \<^verbatim>\<open>memset\<close> with \<^verbatim>\<open>NO\<close> leaves in an \<^verbatim>\<open>int\<close>.
\<close>

definition batcherReady :: "Config \<Rightarrow> ('b, 'g, 'd, 'h) ParallelSim \<Rightarrow> bool" where
  "batcherReady c s \<longleftrightarrow>
     moleculeCount s = int (length (moleculesD s)) \<and>
     length (nbrMolsD s) = length (moleculesD s) \<and>
     length (nbrMolsH s) = length (moleculesD s) \<and>
     length (molBatchH s) = length (moleculesD s) \<and>
     0 < MOL_BLOCK c \<and> moleculeCount s + MOL_BLOCK c \<le> 2147483648 \<and>
     YES c \<noteq> memset_int (NO c) \<and>
     0 < env_x (environmentD s) \<and> 0 < env_y (environmentD s) \<and> 0 < env_z (environmentD s) \<and>
     0 \<le> primaryAtomIndex (environmentD s) \<and>
     list_all (\<lambda>m. primaryAtomIndex (environmentD s) < int (length (atoms m))) (moleculesD s)"

text \<open>
  A cell of the work grid is active: atom index \<open>ax\<close> is below the atom count of the
  current molecule, atom index \<open>ay\<close> is below that of the batch molecule, and both atoms
  have non-negative sigma and epsilon.
\<close>

definition activeCell ::
  "('b, 'g, 'd, 'h) Molecule \<Rightarrow> ('b, 'g, 'd, 'h) Molecule \<Rightarrow> int \<Rightarrow> int \<Rightarrow> bool"
where
  "activeCell mol1 mol2 ax ay \<longleftrightarrow>
     ax < numOfAtoms mol1 \<and> ay < numOfAtoms mol2 \<and>
     sigma (atoms mol1 ! nat ax) \<ge> 0 \<and> epsilon (atoms mol1 ! nat ax) \<ge> 0 \<and>
     sigma (atoms mol2 ! nat ay) \<ge> 0 \<and> epsilon (atoms mol2 ! nat ay) \<ge> 0"

text \<open>
  The energy of an atom pair at squared distance \<open>r2\<close> as the specification words it:
  0 for coincident sites, otherwise \<open>4 \<epsilon> (t\<^sup>6 - t\<^sup>3)\<close> with \<open>t = \<sigma>\<^sup>2 / r2\<close> for the blended
  \<open>\<sigma>\<close> and \<open>\<epsilon>\<close>, plus \<open>q\<^sub>1 q\<^sub>2 332.06 / sqrt r2\<close>.
\<close>

definition pairEnergy :: "Atom \<Rightarrow> Atom \<Rightarrow> real \<Rightarrow> real" where
  "pairEnergy atom1 atom2 r2 =
     (if r2 = 0 then 0
      else 4 * sqrt (epsilon atom1 * epsilon atom2)
             * (((sqrt (sigma atom1 * sigma atom2))\<^sup>2 / r2) ^ 6
                - ((sqrt (sigma atom1 * sigma atom2))\<^sup>2 / r2) ^ 3)
           + charge atom1 * charge atom2 * 332.06 / sqrt r2)"

text \<open>
  What the cell of the thread \<open>tid\<close> is to store in its slot: the pair energy at the
  squared minimum-image distance of its two atoms when the cell is active, and nothing,
  \<open>None\<close>, when it is not or when the slot belongs to no cell.
\<close>

definition cellWrite ::
  "('b, 'g, 'd, 'h) Molecule list \<Rightarrow> int \<Rightarrow> Environment \<Rightarrow> int \<Rightarrow> int list \<Rightarrow> int \<Rightarrow>
   nat \<Rightarrow> real option"
where
  "cellWrite mols cur enviro ec molBatch mms tid =
     (if int tid < ec \<and> molBatch ! nat (int tid div (mms * mms)) \<noteq> - 1
      then let mol1 = mols ! nat cur;
               mol2 = mols ! nat (molBatch ! nat (int tid div (mms * mms)));
               ax = (int tid mod (mms * mms)) div mms;
               ay = (int tid mod (mms * mms)) mod mms;
               atom1 = atoms mol1 ! nat ax;
               atom2 = atoms mol2 ! nat ay
           in if activeCell mol1 mol2 ax ay
              then Some (pairEnergy atom1 atom2 (minimumImageR2 atom1 atom2 enviro))
              else None
      else None)"

text \<open>
  The state in which \<^verbatim>\<open>calcBatchEnergy\<close> may be called: array lengths agree with the
  counts, the energy buffer is not empty and has at most one segment per batch slot, the
  block sizes are positive and the grids small enough for 32-bit indices, the box
  lengths are positive, and no atom count exceeds its array.
\<close>

definition energyReady :: "Config \<Rightarrow> ('b, 'g, 'd, 'h) ParallelSim \<Rightarrow> bool" where
  "energyReady c s \<longleftrightarrow>
     moleculeCount s = int (length (moleculesD s)) \<and>
     length (molBatchH s) = length (moleculesD s) \<and>
     length (molBatchD s) = length (moleculesD s) \<and>
     energyCount s = int (length (energiesD s)) \<and> 0 < energyCount s \<and>
     0 < AGG_BLOCK c \<and> energyCount s * (3 * AGG_BLOCK c + 1) \<le> 2147483648 \<and>
     0 < BATCH_BLOCK c \<and> energyCount s + BATCH_BLOCK c \<le> 2147483648 \<and>
     0 < maxMolSize s \<and>
     energyCount s \<le> moleculeCount s * (maxMolSize s * maxMolSize s) \<and>
     0 < env_x (environmentD s) \<and> 0 < env_y (environmentD s) \<and> 0 < env_z (environmentD s) \<and>
     list_all (\<lambda>m. numOfAtoms m \<le> int (length (atoms m))) (moleculesD s)"

text \<open>
  The state in which the driver may run: ready for batching and for energy evaluation,
  with a host molecule for every device molecule; every host molecule has counts that
  fit its arrays and has a primary atom.
\<close>

definition driverReady :: "Config \<Rightarrow> ('b, 'g, 'd, 'h) ParallelSim \<Rightarrow> bool" where
  "driverReady c s \<longleftrightarrow>
     batcherReady c s \<and> energyReady c s \<and>
     length (molecules (innerbox s)) = length (moleculesD s) \<and>
     list_all (\<lambda>m. countsFit m \<and> primaryAtomIndex (environmentD s) < int (length (atoms m)))
       (molecules (innerbox s))"

subsection \<open>A small system for concrete evaluation\<close>

definition exAtom :: "real \<Rightarrow> real \<Rightarrow> real \<Rightarrow> Atom" where
  "exAtom px py pz =
     \<lparr>atom_x = px, atom_y = py, atom_z = pz, sigma = 1, epsilon = 1, charge = 0\<rparr>"

definition exMolecule :: "int \<Rightarrow> Atom list \<Rightarrow> (nat, nat, nat, nat) Molecule" where
  "exMolecule i as =
     \<lparr>mol_id = i, numOfAtoms = int (length as), numOfBonds = 1, numOfAngles = 0,
      numOfDihedrals = 0, numOfHops = 0,
      atoms = as, bonds = [7], angles = [], dihedrals = [], hops = []\<rparr>"

definition exUninit :: "(nat, nat, nat, nat) Uninit" where
  "exUninit = \<lparr>u_atom = exAtom 9 9 9, u_bond = 9, u_angle = 9, u_dihedral = 9, u_hop = 9\<rparr>"

definition exBox :: "(nat, nat, nat, nat) Box" where
  "exBox = \<lparr>molecules = [exMolecule 0 [exAtom 1 1 1], exMolecule 1 [exAtom 2 1 1]],
            changedmole = exMolecule 5 []\<rparr>"

definition exConfig :: Config where
  "exConfig = \<lparr>MOL_BLOCK = 2, BATCH_BLOCK = 2, AGG_BLOCK = 2, MAX_WARP = 1, YES = 1, NO = 0,
               kBoltz = 1\<rparr>"

definition exEnv :: Environment where
  "exEnv = \<lparr>env_x = 10, env_y = 10, env_z = 10, cutoff = 5, temperature = 1,
            primaryAtomIndex = 0, numOfMolecules = 2\<rparr>"

definition exSim :: "(nat, nat, nat, nat) ParallelSim" where
  "exSim = \<lparr>moleculeCount = 2, energyCount = 2, maxMolSize = 1,
            moleculesD = molecules exBox, environmentD = exEnv, environment = exEnv,
            nbrMolsH = [0, 0], nbrMolsD = [0, 0], molBatchH = [0, 0], molBatchD = [0, 0],
            energiesD = [0, 0], innerbox = exBox,
            oldEnergy = 0, currentEnergy = 0, accepted = 0, rejected = 0, eventLog = []\<rparr>"

definition exDrawsNear :: Draws where
  "exDrawsNear = \<lparr>chosen = 1, perturb = (\<lambda>as j. exAtom (3 / 2) 1 1), uniform = 1 / 2\<rparr>"

definition exDrawsAway :: Draws where
  "exDrawsAway = \<lparr>chosen = 1, perturb = (\<lambda>as j. exAtom 3 1 1), uniform = 1 / 2\<rparr>"

text \<open>
  Three molecules in a box of length 10 with cutoff 3. The second is within the cutoff
  of the first only across the periodic boundary: the coordinate difference is 8 and
  the minimum-image displacement is 2. The third is not, at displacement 4, and its
  atom has a negative sigma.
\<close>

definition exWrapSim :: "(nat, nat, nat, nat) ParallelSim" where
  "exWrapSim = \<lparr>moleculeCount = 3, energyCount = 3, maxMolSize = 1,
                moleculesD = [exMolecule 0 [exAtom 1 1 1], exMolecule 1 [exAtom 9 1 1],
                              exMolecule 2 [(exAtom 5 1 1)\<lparr>sigma := - 1\<rparr>]],
                environmentD = exEnv\<lparr>cutoff := 3\<rparr>, environment = exEnv\<lparr>cutoff := 3\<rparr>,
                nbrMolsH = [0, 0, 0], nbrMolsD = [0, 0, 0],
                molBatchH = [1, 2, - 1], molBatchD = [0, 0, 0],
                energiesD = [0, 0, 0], innerbox = exBox,
                oldEnergy = 0, currentEnergy = 0, accepted = 0, rejected = 0, eventLog = []\<rparr>"

section \<open>Properties\<close>

subsection \<open>Minimum-image displacement\<close>

text \<open>
  Each loop of \<^verbatim>\<open>makePeriodic\<close> returns when the box length is positive; the number of
  iterations left is bounded by a ceiling that falls by one in every iteration.
\<close>

lemma makePeriodic_up_returns:
  assumes "0 < box"
  shows "\<exists>y k. makePeriodic_up v box = Some y \<and> y = v + real k * box \<and> - 0.5 * box \<le> y
           \<and> (if v < - 0.5 * box then y < 0.5 * box else y = v)"
proof (induction "nat \<lceil>(- 0.5 * box - v) / box\<rceil>" arbitrary: v rule: less_induct)
  case less
  show ?case
  proof (cases "v < - 0.5 * box")
    case False
    then have "makePeriodic_up v box = Some v"
      by (subst makePeriodic_up.simps) simp
    with False show ?thesis
      by (intro exI [of _ v] exI [of _ 0]) simp
  next
    case True
    have q: "(- 0.5 * box - (v + box)) / box = (- 0.5 * box - v) / box - 1"
      using assms by (simp add: field_simps)
    have pos: "0 < (- 0.5 * box - v) / box"
      using True assms by simp
    have "nat \<lceil>(- 0.5 * box - (v + box)) / box\<rceil> < nat \<lceil>(- 0.5 * box - v) / box\<rceil>"
      unfolding q using pos by linarith
    from less [OF this] obtain y k where
      y: "makePeriodic_up (v + box) box = Some y" "y = v + box + real k * box"
         "- 0.5 * box \<le> y"
         "if v + box < - 0.5 * box then y < 0.5 * box else y = v + box"
      by blast
    have "makePeriodic_up v box = Some y"
      using True y(1) by (subst makePeriodic_up.simps) simp
    moreover have "y = v + real (Suc k) * box"
      using y(2) by (simp add: algebra_simps)
    moreover have "y < 0.5 * box"
      using y(4) True by (simp split: if_splits)
    ultimately have "makePeriodic_up v box = Some y \<and> y = v + real (Suc k) * box
        \<and> - 0.5 * box \<le> y \<and> (if v < - 0.5 * box then y < 0.5 * box else y = v)"
      using True y(3) by simp
    then show ?thesis by blast
  qed
qed

lemma makePeriodic_down_returns:
  assumes "0 < box"
  shows "\<exists>y k. makePeriodic_down v box = Some y \<and> y = v - real k * box \<and> y \<le> 0.5 * box
           \<and> (if v > 0.5 * box then - 0.5 * box < y else y = v)"
proof (induction "nat \<lceil>(v - 0.5 * box) / box\<rceil>" arbitrary: v rule: less_induct)
  case less
  show ?case
  proof (cases "v > 0.5 * box")
    case False
    then have "makePeriodic_down v box = Some v"
      by (subst makePeriodic_down.simps) simp
    with False show ?thesis
      by (intro exI [of _ v] exI [of _ 0]) simp
  next
    case True
    have q: "(v - box - 0.5 * box) / box = (v - 0.5 * box) / box - 1"
      using assms by (simp add: field_simps)
    have pos: "0 < (v - 0.5 * box) / box"
      using True assms by simp
    have "nat \<lceil>(v - box - 0.5 * box) / box\<rceil> < nat \<lceil>(v - 0.5 * box) / box\<rceil>"
      unfolding q using pos by linarith
    from less [OF this] obtain y k where
      y: "makePeriodic_down (v - box) box = Some y" "y = v - box - real k * box"
         "y \<le> 0.5 * box"
         "if v - box > 0.5 * box then - 0.5 * box < y else y = v - box"
      by blast
    have "makePeriodic_down v box = Some y"
      using True y(1) by (subst makePeriodic_down.simps) simp
    moreover have "y = v - real (Suc k) * box"
      using y(2) by (simp add: algebra_simps)
    moreover have "- 0.5 * box < y"
      using y(4) True by (simp split: if_splits)
    ultimately have "makePeriodic_down v box = Some y \<and> y = v - real (Suc k) * box
        \<and> y \<le> 0.5 * box \<and> (if v > 0.5 * box then - 0.5 * box < y else y = v)"
      using True y(3) by simp
    then show ?thesis by blast
  qed
qed

lemma makePeriodic_returns:
  assumes "0 < box"
  shows "\<exists>y n. makePeriodic v box = Some y \<and> y = v + of_int n * box
           \<and> - 0.5 * box \<le> y \<and> y \<le> 0.5 * box"
proof -
  from makePeriodic_up_returns [OF assms, of v] obtain y1 k1 where
    u: "makePeriodic_up v box = Some y1" "y1 = v + real k1 * box" "- 0.5 * box \<le> y1"
    by blast
  from makePeriodic_down_returns [OF assms, of y1] obtain y2 k2 where
    d: "makePeriodic_down y1 box = Some y2" "y2 = y1 - real k2 * box" "y2 \<le> 0.5 * box"
       "if y1 > 0.5 * box then - 0.5 * box < y2 else y2 = y1"
    by blast
  have "makePeriodic v box = Some y2"
    using u(1) d(1) by (simp add: makePeriodic_def)
  moreover have "y2 = v + of_int (int k1 - int k2) * box"
    using u(2) d(2) by (simp add: algebra_simps)
  moreover have "- 0.5 * box \<le> y2"
    using d(4) u(3) by (simp split: if_splits)
  ultimately show ?thesis
    using d(3) by blast
qed

text \<open>
  The minimum-image displacement of the specification differs from \<open>d\<close> by an integer
  multiple of the box length, lies within half a box length of 0, and no value that
  differs from \<open>d\<close> by an integer multiple of the box length is nearer to 0. The value
  that \<^verbatim>\<open>makePeriodic\<close> returns has the same square: the two agree, except that at
  exactly half a box length they may lie at opposite ends of the interval.
\<close>

lemma minimumImage_congruent:
  "\<exists>k::int. minimumImage d L = d + of_int k * L"
  unfolding minimumImage_def
  by (rule exI [of _ "- round (d / L)"]) simp

lemma minimumImage_half_box:
  assumes "0 < L"
  shows "\<bar>minimumImage d L\<bar> \<le> L / 2"
proof -
  have "\<bar>of_int (round (d / L)) - d / L\<bar> \<le> 1 / 2"
    by (rule of_int_round_abs_le)
  then have "\<bar>of_int (round (d / L)) - d / L\<bar> * L \<le> 1 / 2 * L"
    using assms by (intro mult_right_mono) simp_all
  moreover have "\<bar>of_int (round (d / L)) - d / L\<bar> * L = \<bar>minimumImage d L\<bar>"
  proof -
    have "minimumImage d L = - ((of_int (round (d / L)) - d / L) * L)"
      using assms by (simp add: minimumImage_def field_simps)
    then show ?thesis
      using assms by (simp add: abs_mult)
  qed
  ultimately show ?thesis by simp
qed

lemma minimumImage_nearest:
  assumes "0 < L"
  shows "\<bar>minimumImage d L\<bar> \<le> \<bar>d + of_int k * L\<bar>"
proof -
  have "\<bar>d / L - of_int (round (d / L))\<bar> \<le> \<bar>d / L - of_int (- k)\<bar>"
    by (rule round_diff_minimal)
  then have "\<bar>d / L - of_int (round (d / L))\<bar> * L \<le> \<bar>d / L - of_int (- k)\<bar> * L"
    using assms by (intro mult_right_mono) simp_all
  moreover have "\<bar>d / L - of_int (round (d / L))\<bar> * L = \<bar>minimumImage d L\<bar>"
  proof -
    have "minimumImage d L = (d / L - of_int (round (d / L))) * L"
      using assms by (simp add: minimumImage_def field_simps)
    then show ?thesis
      using assms by (simp add: abs_mult)
  qed
  moreover have "\<bar>d / L - of_int (- k)\<bar> * L = \<bar>d + of_int k * L\<bar>"
  proof -
    have "d + of_int k * L = (d / L - of_int (- k)) * L"
      using assms by (simp add: field_simps)
    then show ?thesis
      using assms by (simp add: abs_mult)
  qed
  ultimately show ?thesis by simp
qed


lemma makePeriodic_minimumImage:
  assumes "0 < box"
  shows "\<exists>y. makePeriodic d box = Some y \<and> y * y = (minimumImage d box)\<^sup>2"
proof -
  from makePeriodic_returns [OF assms, of d] obtain y n where
    y: "makePeriodic d box = Some y" "y = d + of_int n * box"
       "- 0.5 * box \<le> y" "y \<le> 0.5 * box"
    by blast
  obtain k :: int where k: "minimumImage d box = d + of_int k * box"
    using minimumImage_congruent by blast
  have le1: "\<bar>minimumImage d box\<bar> \<le> \<bar>y\<bar>"
    unfolding y(2) by (rule minimumImage_nearest [OF assms])
  have hb: "\<bar>minimumImage d box\<bar> \<le> box / 2"
    by (rule minimumImage_half_box [OF assms])
  have diff: "y - minimumImage d box = of_int (n - k) * box"
    using y(2) k by (simp add: algebra_simps)
  have "\<bar>y\<bar> \<le> \<bar>minimumImage d box\<bar>"
  proof (cases "n = k")
    case True
    then show ?thesis using diff by simp
  next
    case False
    then have "1 \<le> \<bar>n - k\<bar>" by simp
    then have "(1::real) \<le> \<bar>of_int (n - k)\<bar>"
      by (metis of_int_abs of_int_1_le_iff)
    then have "1 * box \<le> \<bar>of_int (n - k)\<bar> * box"
      using assms by (intro mult_right_mono) simp_all
    then have "box \<le> \<bar>y - minimumImage d box\<bar>"
      using assms by (simp add: diff abs_mult)
    then show ?thesis
      using y(3,4) hb by linarith
  qed
  with le1 have "\<bar>y\<bar> = \<bar>minimumImage d box\<bar>" by simp
  then have "y\<^sup>2 = (minimumImage d box)\<^sup>2"
    by (metis power2_abs)
  with y(1) show ?thesis
    by (simp add: power2_eq_square)
qed

text \<open>
  C7, as stated, fails: the first loop runs only while the value is strictly below
  \<open>-L/2\<close>, so the value \<open>-L/2\<close> itself is returned unchanged. For \<open>d = -1\<close> and \<open>L = 2\<close>
  the result is \<open>-1\<close>, which is not in the half-open interval \<open>(-1, 1]\<close>.
\<close>

theorem makePeriodic_lower_end_counterexample:
  "makePeriodic (- 1) 2 = Some (- 1) \<and> \<not> (- (2 / 2) < (- 1 :: real))"
  by (simp add: makePeriodic_def makePeriodic_up.simps makePeriodic_down.simps)

text \<open>
  C7, amended. For every difference \<open>d\<close> and box length \<open>L > 0\<close>, \<^verbatim>\<open>makePeriodic\<close> returns,
  its result lies in the closed interval \<open>[-L/2, L/2]\<close>, and it differs from \<open>d\<close> by an
  integer multiple of \<open>L\<close>.
\<close>

theorem makePeriodic_closed_interval:
  assumes "0 < box"
  shows "\<exists>y n. makePeriodic d box = Some y \<and> y = d + of_int n * box
           \<and> - (box / 2) \<le> y \<and> y \<le> box / 2"
  using makePeriodic_returns [OF assms, of d] by simp

theorem makePeriodic_closed_interval_witness:
  "(0::real) < 2 \<and> (\<exists>y n. makePeriodic 5 2 = Some y \<and> y = 5 + of_int n * 2
      \<and> - (2 / 2) \<le> y \<and> y \<le> 2 / 2)"
  using makePeriodic_closed_interval [of 2 5] by simp

subsection \<open>The Metropolis criterion\<close>

text \<open>
  C1, as stated, fails: the source accepts when \<^verbatim>\<open>x >= randomFloat(0.0, 1.0)\<close>, so a draw
  equal to the Boltzmann factor is accepted although it is not strictly less. With
  \<open>Enew = 1\<close>, \<open>Eold = 0\<close>, \<open>kT = 1\<close> and the draw \<open>exp (-1)\<close>, which lies in \<open>[0, 1)\<close>, the
  move is accepted.
\<close>

theorem acceptMove_equal_draw_counterexample:
  "acceptMove 1 0 1 (exp (- 1)) = Some True
     \<and> \<not> (exp (- 1) < exp (- (1 - 0) / (1::real)))
     \<and> 0 \<le> exp (- 1 :: real) \<and> exp (- 1 :: real) < 1"
  by (simp add: acceptMove_def rdiv_def)

text \<open>
  C1, amended. With \<open>kT > 0\<close>: if \<open>Enew < Eold\<close> the move is accepted; otherwise it is
  accepted if and only if the draw is less than or equal to
  \<open>exp (- (Enew - Eold) / kT)\<close>.
\<close>

theorem acceptMove_criterion:
  assumes "0 < kT"
  shows "acceptMove Enew Eold kT u
           = Some (Enew < Eold \<or> (Eold \<le> Enew \<and> u \<le> exp (- (Enew - Eold) / kT)))"
  using assms by (auto simp: acceptMove_def rdiv_def)

theorem acceptMove_criterion_witness:
  "(0::real) < 1 \<and> acceptMove 2 1 1 (1 / 2) = Some False"
proof -
  have "exp (- 1 :: real) < 1 / 2"
  proof -
    have "(2::real) < exp 1"
      using exp_lower_Taylor_quadratic [of "1::real"] by simp
    then have "1 / exp (1::real) < 1 / 2"
      by (simp add: field_simps)
    then show ?thesis
      by (simp add: exp_minus field_simps)
  qed
  then show ?thesis
    using acceptMove_criterion [of 1 2 1 "1 / 2"] by simp
qed

subsection \<open>Coincident sites\<close>

text \<open>
  C8. When the squared distance of two atoms is exactly 0, \<^verbatim>\<open>calc_lj\<close> returns 0 and
  \<^verbatim>\<open>calcCharge\<close>, called with the square root of that distance, returns 0: both return
  a value, so neither division is evaluated with a zero divisor.
\<close>

theorem coincident_atoms_contribute_zero:
  "calc_lj atom1 atom2 0 = Some 0 \<and> calcCharge charge1 charge2 (sqrt 0) = Some 0"
  by (simp add: calc_lj_def calcCharge_def)

subsection \<open>Checkpoint and rollback\<close>

lemma copyElems_nth:
  "0 \<le> i \<Longrightarrow> n \<le> int (length src) \<Longrightarrow> n \<le> int (length dst) \<Longrightarrow>
   \<exists>r. copyElems i n dst src = Some r \<and> length r = length dst \<and>
       (\<forall>j<length dst. r ! j = (if i \<le> int j \<and> int j < n then src ! j else dst ! j))"
proof (induction i n dst src rule: copyElems.induct)
  case (1 i n dst src)
  show ?case
  proof (cases "i < n")
    case False
    then show ?thesis by (subst copyElems.simps) auto
  next
    case True
    have r: "rd src i = Some (src ! nat i)"
      using True 1(2,3) by (simp add: rd_def)
    have w: "wr dst i (src ! nat i) = Some (dst[nat i := src ! nat i])"
      using True 1(2,4) by (simp add: wr_def)
    from "1.IH" [OF True r w] 1(2,3,4)
    obtain r' where r': "copyElems (i + 1) n (dst[nat i := src ! nat i]) src = Some r'"
      "length r' = length dst"
      "\<forall>j<length dst. r' ! j = (if i + 1 \<le> int j \<and> int j < n then src ! j
                                   else dst[nat i := src ! nat i] ! j)"
      by auto
    have "copyElems i n dst src = Some r'"
      using True r w r'(1) by (subst copyElems.simps) simp
    moreover have "\<forall>j<length dst. r' ! j = (if i \<le> int j \<and> int j < n then src ! j else dst ! j)"
    proof (intro allI impI)
      fix j assume j: "j < length dst"
      show "r' ! j = (if i \<le> int j \<and> int j < n then src ! j else dst ! j)"
      proof (cases "j = nat i")
        case True
        then show ?thesis using r'(3) j 1(2) \<open>i < n\<close> by simp
      next
        case False
        then have "int j \<noteq> i" using 1(2) by auto
        then show ?thesis using r'(3) j False by auto
      qed
    qed
    ultimately show ?thesis using r'(2) by blast
  qed
qed

lemma copyElems_take:
  assumes "n \<le> int (length src)" "n \<le> int (length dst)"
  shows "\<exists>r. copyElems 0 n dst src = Some r \<and> length r = length dst \<and>
             take (nat n) r = take (nat n) src"
proof -
  from copyElems_nth [of 0 n src dst] assms obtain r where
    r: "copyElems 0 n dst src = Some r" "length r = length dst"
       "\<forall>j<length dst. r ! j = (if 0 \<le> int j \<and> int j < n then src ! j else dst ! j)"
    by auto
  have "take (nat n) r = take (nat n) src"
    using assms r(2,3) by (intro nth_equalityI) auto
  with r show ?thesis by blast
qed


lemma copyMolecule_observable:
  assumes "numOfAtoms src \<le> int (length (atoms src))" "numOfAtoms src \<le> int (length (atoms dst))"
    and "numOfBonds src \<le> int (length (bonds src))" "numOfBonds src \<le> int (length (bonds dst))"
    and "numOfAngles src \<le> int (length (angles src))"
        "numOfAngles src \<le> int (length (angles dst))"
    and "numOfDihedrals src \<le> int (length (dihedrals src))"
        "numOfDihedrals src \<le> int (length (dihedrals dst))"
    and "numOfHops src \<le> int (length (hops src))" "numOfHops src \<le> int (length (hops dst))"
  shows "\<exists>r. copyMolecule dst src = Some r \<and> observable r = observable src \<and> sameArrays r dst"
proof -
  obtain as where as: "copyElems 0 (numOfAtoms src) (atoms dst) (atoms src) = Some as"
      "length as = length (atoms dst)"
      "take (nat (numOfAtoms src)) as = take (nat (numOfAtoms src)) (atoms src)"
    using copyElems_take [OF assms(1,2)] by blast
  obtain bs where bs: "copyElems 0 (numOfBonds src) (bonds dst) (bonds src) = Some bs"
      "length bs = length (bonds dst)"
      "take (nat (numOfBonds src)) bs = take (nat (numOfBonds src)) (bonds src)"
    using copyElems_take [OF assms(3,4)] by blast
  obtain gs where gs: "copyElems 0 (numOfAngles src) (angles dst) (angles src) = Some gs"
      "length gs = length (angles dst)"
      "take (nat (numOfAngles src)) gs = take (nat (numOfAngles src)) (angles src)"
    using copyElems_take [OF assms(5,6)] by blast
  obtain ds where ds:
      "copyElems 0 (numOfDihedrals src) (dihedrals dst) (dihedrals src) = Some ds"
      "length ds = length (dihedrals dst)"
      "take (nat (numOfDihedrals src)) ds = take (nat (numOfDihedrals src)) (dihedrals src)"
    using copyElems_take [OF assms(7,8)] by blast
  obtain hs where hs: "copyElems 0 (numOfHops src) (hops dst) (hops src) = Some hs"
      "length hs = length (hops dst)"
      "take (nat (numOfHops src)) hs = take (nat (numOfHops src)) (hops src)"
    using copyElems_take [OF assms(9,10)] by blast
  show ?thesis
    using as bs gs ds hs
    by (simp add: copyMolecule_def observable_def sameArrays_def Let_def)
qed

text \<open>
  C3. Let molecule \<open>moleno\<close> exist and let its counts fit its arrays. Then
  \<^verbatim>\<open>saveChangedMole\<close> returns, and after any in-place mutation of that molecule (any new
  field values and array contents, the arrays keeping their lengths) \<^verbatim>\<open>Rollback\<close> returns
  and leaves the molecule's observable state (id, the five counts, the contents of the
  five arrays) equal to its state at the checkpoint.
\<close>

theorem checkpoint_rollback_roundtrip:
  assumes m: "rd (molecules box) moleno = Some m"
    and fit: "countsFit m"
  shows "\<exists>box1. saveChangedMole u box moleno = Some box1 \<and>
           (\<forall>m'. sameArrays m' m \<longrightarrow>
              (\<exists>box3 m3.
                 Rollback (box1\<lparr>molecules := (molecules box1)[nat moleno := m']\<rparr>) moleno
                   = Some box3
                 \<and> rd (molecules box3) moleno = Some m3
                 \<and> observable m3 = observable m))"
proof -
  let ?c = "m\<lparr>atoms := malloc (u_atom u) (numOfAtoms m),
               bonds := malloc (u_bond u) (numOfBonds m),
               angles := malloc (u_angle u) (numOfAngles m),
               dihedrals := malloc (u_dihedral u) (numOfDihedrals m),
               hops := malloc (u_hop u) (numOfHops m)\<rparr>"
  have "\<exists>r. copyMolecule ?c m = Some r \<and> observable r = observable m \<and> sameArrays r ?c"
    by (rule copyMolecule_observable) (use fit in \<open>simp_all add: countsFit_def malloc_def\<close>)
  then obtain c' where c': "copyMolecule ?c m = Some c'" "observable c' = observable m"
      "sameArrays c' ?c"
    by blast
  let ?box1 = "box\<lparr>changedmole := c'\<rparr>"
  have save: "saveChangedMole u box moleno = Some ?box1"
    using m c'(1) by (simp add: saveChangedMole_def)
  have idx: "0 \<le> moleno" "moleno < int (length (molecules box))"
    using m by (auto simp: rd_def split: if_splits)
  have counts: "numOfAtoms c' = numOfAtoms m" "numOfBonds c' = numOfBonds m"
      "numOfAngles c' = numOfAngles m" "numOfDihedrals c' = numOfDihedrals m"
      "numOfHops c' = numOfHops m"
    using c'(2) by (simp_all add: observable_def)
  have lens: "length (atoms c') = nat (numOfAtoms m)" "length (bonds c') = nat (numOfBonds m)"
      "length (angles c') = nat (numOfAngles m)"
      "length (dihedrals c') = nat (numOfDihedrals m)"
      "length (hops c') = nat (numOfHops m)"
    using c'(3) by (simp_all add: sameArrays_def malloc_def)
  have "\<exists>box3 m3.
          Rollback (?box1\<lparr>molecules := (molecules ?box1)[nat moleno := m']\<rparr>) moleno
            = Some box3
          \<and> rd (molecules box3) moleno = Some m3
          \<and> observable m3 = observable m"
    if same: "sameArrays m' m" for m'
  proof -
    have "\<exists>r. copyMolecule m' c' = Some r \<and> observable r = observable c' \<and> sameArrays r m'"
      by (rule copyMolecule_observable)
        (use fit same counts lens in \<open>simp_all add: countsFit_def sameArrays_def\<close>)
    then obtain r where r: "copyMolecule m' c' = Some r" "observable r = observable c'"
      by blast
    have "Rollback (?box1\<lparr>molecules := (molecules ?box1)[nat moleno := m']\<rparr>) moleno
            = Some (?box1\<lparr>molecules := (molecules box)[nat moleno := r]\<rparr>)"
      using idx r(1) by (simp add: Rollback_def rd_def wr_def)
    moreover have "rd ((molecules box)[nat moleno := r]) moleno = Some r"
      using idx by (simp add: rd_def)
    ultimately show ?thesis
      using r(2) c'(2) by simp
  qed
  with save show ?thesis by blast
qed


theorem checkpoint_rollback_roundtrip_witness:
  "rd (molecules exBox) 1 = Some (exMolecule 1 [exAtom 2 1 1])
   \<and> countsFit (exMolecule 1 [exAtom 2 1 1])
   \<and> sameArrays ((exMolecule 4 [exAtom 3 3 3])\<lparr>bonds := [8]\<rparr>) (exMolecule 1 [exAtom 2 1 1])
   \<and> (\<exists>box1. saveChangedMole exUninit exBox 1 = Some box1 \<and>
        (\<exists>box3 m3.
           Rollback (box1\<lparr>molecules :=
                       (molecules box1)[nat 1 := (exMolecule 4 [exAtom 3 3 3])\<lparr>bonds := [8]\<rparr>]\<rparr>) 1
             = Some box3
           \<and> rd (molecules box3) 1 = Some m3
           \<and> observable m3 = observable (exMolecule 1 [exAtom 2 1 1])))"
proof -
  have r: "rd (molecules exBox) 1 = Some (exMolecule 1 [exAtom 2 1 1])"
    by (simp add: rd_def exBox_def)
  have f: "countsFit (exMolecule 1 [exAtom 2 1 1])"
    by (simp add: countsFit_def exMolecule_def)
  have s: "sameArrays ((exMolecule 4 [exAtom 3 3 3])\<lparr>bonds := [8]\<rparr>) (exMolecule 1 [exAtom 2 1 1])"
    by (simp add: sameArrays_def exMolecule_def)
  from checkpoint_rollback_roundtrip [OF r f, of exUninit] s r f
  show ?thesis by blast
qed

subsection \<open>The reduction\<close>

text \<open>
  Within one pass the threads touch disjoint slots: thread \<open>t\<close> reads and writes the slots
  \<open>3it\<close>, \<open>3it + i\<close> and \<open>3it + 2i\<close> only. The invariant of the passes is that, before the
  pass of interval \<open>i\<close>, every slot whose index is not a multiple of \<open>i\<close> holds 0, while
  the sum of the buffer never changes.
\<close>

lemma int32_id: "- 2147483648 \<le> v \<Longrightarrow> v < 2147483648 \<Longrightarrow> int32 v = v"
  by (simp add: int32_def)

lemma sum_list_update_real:
  fixes xs :: "real list"
  shows "k < length xs \<Longrightarrow> sum_list (xs[k := v]) = sum_list xs - xs ! k + v"
proof (induction xs arbitrary: k)
  case Nil
  then show ?case by simp
next
  case (Cons x xs)
  then show ?case by (cases k) auto
qed

lemma cdiv_nonneg: "0 \<le> a \<Longrightarrow> 0 < b \<Longrightarrow> cdiv a b = Some (a div b)"
  by (cases "a = 0") (simp_all add: cdiv_def)

lemma cmod_nonneg: "0 \<le> a \<Longrightarrow> 0 < b \<Longrightarrow> cmod a b = Some (a mod b)"
  by (cases "a = 0") (simp_all add: cmod_def)

lemma aggregateEnergies_loop_effect:
  assumes "0 \<le> idx" "1 \<le> i" "0 < interval" "ec = int (length e)"
  shows "\<exists>e'. aggregateEnergies_loop ec interval batchSize idx i e = Some e'
           \<and> length e' = length e \<and> sum_list e' = sum_list e
           \<and> (\<forall>j<length e. int j \<noteq> idx \<longrightarrow>
                 (\<forall>k. i \<le> k \<and> k < batchSize \<longrightarrow> int j \<noteq> idx + k * interval) \<longrightarrow>
                 e' ! j = e ! j)
           \<and> (\<forall>k. i \<le> k \<and> k < batchSize \<and> idx + k * interval < ec \<longrightarrow>
                 e' ! nat (idx + k * interval) = 0)"
  using assms
proof (induction ec interval batchSize idx i e rule: aggregateEnergies_loop.induct)
  case (1 ec interval batchSize idx i e)
  note prems = "1.prems"
  show ?case
  proof (cases "i < batchSize")
    case False
    then show ?thesis
      by (subst aggregateEnergies_loop.simps) auto
  next
    case True
    note lt = True
    have ipos: "0 < i * interval"
      using prems by simp
    show ?thesis
    proof (cases "idx + i * interval < ec")
      case False
      from "1.IH"(2) [OF lt False] prems
      obtain e' where e':
        "aggregateEnergies_loop ec interval batchSize idx (i + 1) e = Some e'"
        "length e' = length e" "sum_list e' = sum_list e"
        "\<forall>j<length e. int j \<noteq> idx \<longrightarrow>
           (\<forall>k. i + 1 \<le> k \<and> k < batchSize \<longrightarrow> int j \<noteq> idx + k * interval) \<longrightarrow> e' ! j = e ! j"
        "\<forall>k. i + 1 \<le> k \<and> k < batchSize \<and> idx + k * interval < ec \<longrightarrow>
           e' ! nat (idx + k * interval) = 0"
        by auto
      have run: "aggregateEnergies_loop ec interval batchSize idx i e = Some e'"
        using lt False e'(1) by (subst aggregateEnergies_loop.simps) simp
      have zero: "e' ! nat (idx + k * interval) = 0"
        if "i \<le> k \<and> k < batchSize \<and> idx + k * interval < ec" for k
      proof (cases "k = i")
        case True
        with that False show ?thesis by simp
      next
        case False
        with that e'(5) show ?thesis by simp
      qed
      show ?thesis
        using run e'(2,3,4) zero by auto
    next
      case True
      note inb = True
      let ?p = "idx + i * interval"
      let ?e1 = "e[nat idx := e ! nat idx + e ! nat ?p]"
      let ?e2 = "?e1[nat ?p := 0]"
      obtain p where p: "p = idx + i * interval" by simp
      have pb: "idx < p" "p < int (length e)" "0 \<le> p"
        using ipos inb prems(1,4) unfolding p by linarith+
      have ne: "nat idx \<noteq> nat ?p" "nat idx < length e" "nat ?p < length e"
        unfolding p [symmetric] using pb prems(1) by linarith+
      have r1: "rd e idx = Some (e ! nat idx)"
        using prems(1) pb by (simp add: rd_def)
      have r2: "rd e ?p = Some (e ! nat ?p)"
        unfolding p [symmetric] using pb by (simp add: rd_def)
      have w1: "wr e idx (e ! nat idx + e ! nat ?p) = Some ?e1"
        using prems(1) pb by (simp add: wr_def)
      have w2: "wr ?e1 ?p 0 = Some ?e2"
        unfolding p [symmetric] using pb by (simp add: wr_def)
      have len2: "ec = int (length ?e2)"
        using prems by simp
      from "1.IH"(1) [OF lt inb r1 r2 w1 w2 prems(1) _ prems(3) len2] prems(2)
      obtain e' where e':
        "aggregateEnergies_loop ec interval batchSize idx (i + 1) ?e2 = Some e'"
        "length e' = length ?e2" "sum_list e' = sum_list ?e2"
        "\<forall>j<length ?e2. int j \<noteq> idx \<longrightarrow>
           (\<forall>k. i + 1 \<le> k \<and> k < batchSize \<longrightarrow> int j \<noteq> idx + k * interval) \<longrightarrow>
           e' ! j = ?e2 ! j"
        "\<forall>k. i + 1 \<le> k \<and> k < batchSize \<and> idx + k * interval < ec \<longrightarrow>
           e' ! nat (idx + k * interval) = 0"
        by auto
      have run: "aggregateEnergies_loop ec interval batchSize idx i e = Some e'"
        using lt inb r1 r2 w1 w2 e'(1) by (subst aggregateEnergies_loop.simps) simp
      have sum: "sum_list ?e2 = sum_list e"
        using ne by (simp add: sum_list_update_real nth_list_update)
      have keep: "e' ! j = e ! j"
        if "j < length e" "int j \<noteq> idx"
           "\<forall>k. i \<le> k \<and> k < batchSize \<longrightarrow> int j \<noteq> idx + k * interval" for j
      proof -
        have "int j \<noteq> ?p" using that(3) lt by auto
        then have "j \<noteq> nat ?p" "j \<noteq> nat idx"
          unfolding p [symmetric] using that(2) prems(1) pb by linarith+
        then have "?e2 ! j = e ! j" by simp
        moreover have "e' ! j = ?e2 ! j"
          using e'(4) that by auto
        ultimately show ?thesis by simp
      qed
      have zero: "e' ! nat (idx + k * interval) = 0"
        if k: "i \<le> k \<and> k < batchSize \<and> idx + k * interval < ec" for k
      proof (cases "k = i")
        case False
        with k e'(5) show ?thesis by simp
      next
        case True
        have "\<forall>k'. i + 1 \<le> k' \<and> k' < batchSize \<longrightarrow> int (nat ?p) \<noteq> idx + k' * interval"
        proof (intro allI impI)
          fix k' assume "i + 1 \<le> k' \<and> k' < batchSize"
          then have "i * interval < k' * interval"
            using prems(3) by simp
          moreover have "int (nat ?p) = ?p"
            unfolding p [symmetric] using pb by simp
          ultimately show "int (nat ?p) \<noteq> idx + k' * interval"
            by linarith
        qed
        moreover have "int (nat ?p) \<noteq> idx"
          unfolding p [symmetric] using pb by simp
        ultimately have "e' ! nat ?p = ?e2 ! nat ?p"
          using e'(4) ne by simp
        then show ?thesis using True ne by simp
      qed
      show ?thesis
        using run e'(2,3) sum keep zero by auto
    qed
  qed
qed


lemma aggregateEnergies_thread:
  fixes e :: "real list" and i t :: nat
  assumes "0 < i" "3 * i * t < 2147483648"
  shows "\<exists>e'. aggregateEnergies (int (length e)) (int i) 3 t e = Some e'
           \<and> length e' = length e \<and> sum_list e' = sum_list e
           \<and> (\<forall>j<length e. j \<noteq> 3 * i * t \<and> j \<noteq> 3 * i * t + i \<and> j \<noteq> 3 * i * t + 2 * i
                 \<longrightarrow> e' ! j = e ! j)
           \<and> (3 * i * t + i < length e \<longrightarrow> e' ! (3 * i * t + i) = 0)
           \<and> (3 * i * t + 2 * i < length e \<longrightarrow> e' ! (3 * i * t + 2 * i) = 0)"
proof -
  let ?idx = "int (3 * i * t)"
  have "int (3 * i * t) < int 2147483648"
    using assms(2) by (simp only: of_nat_less_iff)
  then have hi: "3 * int i * int t < 2147483648"
    by simp
  have "0 \<le> 3 * int i * int t"
    by simp
  then have lo: "- 2147483648 \<le> 3 * int i * int t"
    by linarith
  have idx: "int32 (3 * int i * int t) = ?idx"
    using int32_id [OF lo hi] by simp
  from aggregateEnergies_loop_effect [of ?idx 1 "int i" "int (length e)" e 3] assms(1)
  obtain e' where e':
    "aggregateEnergies_loop (int (length e)) (int i) 3 ?idx 1 e = Some e'"
    "length e' = length e" "sum_list e' = sum_list e"
    "\<forall>j<length e. int j \<noteq> ?idx \<longrightarrow>
       (\<forall>k. 1 \<le> k \<and> k < 3 \<longrightarrow> int j \<noteq> ?idx + k * int i) \<longrightarrow> e' ! j = e ! j"
    "\<forall>k. 1 \<le> k \<and> k < 3 \<and> ?idx + k * int i < int (length e) \<longrightarrow>
       e' ! nat (?idx + k * int i) = 0"
    by auto
  have run: "aggregateEnergies (int (length e)) (int i) 3 t e = Some e'"
    using e'(1) idx by (simp add: aggregateEnergies_def)
  have keep: "e' ! j = e ! j"
    if "j < length e" "j \<noteq> 3 * i * t \<and> j \<noteq> 3 * i * t + i \<and> j \<noteq> 3 * i * t + 2 * i" for j
  proof -
    have "\<forall>k. 1 \<le> k \<and> k < 3 \<longrightarrow> int j \<noteq> ?idx + k * int i"
    proof (intro allI impI)
      fix k :: int assume "1 \<le> k \<and> k < 3"
      then have k: "k = 1 \<or> k = 2" by auto
      have "int j \<noteq> int (3 * i * t + i)" "int j \<noteq> int (3 * i * t + 2 * i)"
        using that(2) by (simp_all only: of_nat_eq_iff not_False_eq_True)
      moreover have "int (3 * i * t + i) = ?idx + 1 * int i"
        "int (3 * i * t + 2 * i) = ?idx + 2 * int i"
        by simp_all
      ultimately show "int j \<noteq> ?idx + k * int i"
        using k by auto
    qed
    moreover have "int j \<noteq> ?idx"
      using that(2) by (simp only: of_nat_eq_iff not_False_eq_True)
    ultimately show ?thesis using e'(4) that(1) by blast
  qed
  have z1: "e' ! (3 * i * t + i) = 0" if h: "3 * i * t + i < length e"
  proof -
    have p: "?idx + 1 * int i = int (3 * i * t + i)" by simp
    have "int (3 * i * t + i) < int (length e)"
      using h by (simp only: of_nat_less_iff)
    then have "(1::int) \<le> 1 \<and> (1::int) < 3 \<and> ?idx + 1 * int i < int (length e)"
      unfolding p by simp
    then have "e' ! nat (?idx + 1 * int i) = 0"
      by (rule e'(5) [rule_format])
    moreover have "nat (?idx + 1 * int i) = 3 * i * t + i"
      by (simp only: p nat_int)
    ultimately show ?thesis
      by (simp only:)
  qed
  have z2: "e' ! (3 * i * t + 2 * i) = 0" if h: "3 * i * t + 2 * i < length e"
  proof -
    have p: "?idx + 2 * int i = int (3 * i * t + 2 * i)" by simp
    have "int (3 * i * t + 2 * i) < int (length e)"
      using h by (simp only: of_nat_less_iff)
    then have "(1::int) \<le> 2 \<and> (2::int) < 3 \<and> ?idx + 2 * int i < int (length e)"
      unfolding p by simp
    then have "e' ! nat (?idx + 2 * int i) = 0"
      by (rule e'(5) [rule_format])
    moreover have "nat (?idx + 2 * int i) = 3 * i * t + 2 * i"
      by (simp only: p nat_int)
    ultimately show ?thesis
      by (simp only:)
  qed
  show ?thesis
    using run e'(2,3) keep z1 z2 by blast
qed

lemma dvd_not_triple_cases:
  fixes i j :: nat
  assumes "0 < i" "i dvd j" "\<not> 3 * i dvd j"
  shows "j = 3 * i * (j div (3 * i)) + i \<or> j = 3 * i * (j div (3 * i)) + 2 * i"
proof -
  obtain q where q: "j = i * q" using assms(2) by (auto simp: dvd_def)
  have "q mod 3 \<noteq> 0"
  proof
    assume "q mod 3 = 0"
    then obtain r where "q = 3 * r" by (auto simp: mod_eq_0_iff_dvd dvd_def)
    with q have "j = 3 * i * r" by simp
    with assms(3) show False by simp
  qed
  then have c: "q mod 3 = 1 \<or> q mod 3 = 2" by linarith
  have d: "j div (3 * i) = q div 3"
    using assms(1) q by (simp add: mult.commute [of 3 i])
  define a where "a = q div 3"
  define b where "b = q mod 3"
  have "q = 3 * a + b"
    unfolding a_def b_def by (rule mult_div_mod_eq [symmetric])
  note ab = a_def b_def this
  have "j = 3 * i * a + i * b"
    unfolding q ab(3) by (simp add: algebra_simps)
  moreover have "j div (3 * i) = a"
    using d ab(1) by simp
  moreover have "b = 1 \<or> b = 2"
    using c ab(2) by simp
  ultimately show ?thesis
    by (elim disjE) simp_all
qed

lemma aggregate_pass:
  fixes e :: "real list" and i m :: nat
  assumes "0 < i" "3 * i * m \<le> 2147483648"
    and "\<forall>j<length e. \<not> i dvd j \<longrightarrow> e ! j = 0"
  shows "\<exists>e'. fold (\<lambda>tid m. m \<bind> aggregateEnergies (int (length e)) (int i) 3 tid) [0..<m]
                (Some e) = Some e'
           \<and> length e' = length e \<and> sum_list e' = sum_list e
           \<and> (\<forall>j<length e. \<not> i dvd j \<longrightarrow> e' ! j = 0)
           \<and> (\<forall>j<length e. i dvd j \<and> \<not> 3 * i dvd j \<and> j div (3 * i) < m \<longrightarrow> e' ! j = 0)"
  using assms(2)
proof (induction m)
  case 0
  then show ?case using assms(3) by simp
next
  case (Suc m)
  then have "3 * i * m \<le> 2147483648" by simp
  from Suc.IH [OF this] obtain e1 where e1:
    "fold (\<lambda>tid m. m \<bind> aggregateEnergies (int (length e)) (int i) 3 tid) [0..<m] (Some e)
       = Some e1"
    "length e1 = length e" "sum_list e1 = sum_list e"
    "\<forall>j<length e. \<not> i dvd j \<longrightarrow> e1 ! j = 0"
    "\<forall>j<length e. i dvd j \<and> \<not> 3 * i dvd j \<and> j div (3 * i) < m \<longrightarrow> e1 ! j = 0"
    by blast
  have small: "3 * i * m < 2147483648"
    using Suc.prems assms(1) by simp
  from aggregateEnergies_thread [OF assms(1) small, of e1] e1(2)
  obtain e' where e':
    "aggregateEnergies (int (length e)) (int i) 3 m e1 = Some e'"
    "length e' = length e" "sum_list e' = sum_list e1"
    "\<forall>j<length e. j \<noteq> 3 * i * m \<and> j \<noteq> 3 * i * m + i \<and> j \<noteq> 3 * i * m + 2 * i
       \<longrightarrow> e' ! j = e1 ! j"
    "3 * i * m + i < length e \<longrightarrow> e' ! (3 * i * m + i) = 0"
    "3 * i * m + 2 * i < length e \<longrightarrow> e' ! (3 * i * m + 2 * i) = 0"
    by auto
  have run: "fold (\<lambda>tid m. m \<bind> aggregateEnergies (int (length e)) (int i) 3 tid) [0..<Suc m]
               (Some e) = Some e'"
    using e1(1) e'(1) by simp
  have c1: "e' ! j = 0" if "j < length e" "\<not> i dvd j" for j
  proof -
    have "j \<noteq> 3 * i * m \<and> j \<noteq> 3 * i * m + i \<and> j \<noteq> 3 * i * m + 2 * i"
      using that(2) by auto
    then show ?thesis using e'(4) e1(4) that by simp
  qed
  have c2: "e' ! j = 0"
    if "j < length e" "i dvd j" "\<not> 3 * i dvd j" "j div (3 * i) < Suc m" for j
  proof (cases "j div (3 * i) < m")
    case True
    have "(3 * i * m) div (3 * i) = m" "(3 * i * m + i) div (3 * i) = m"
      "(3 * i * m + 2 * i) div (3 * i) = m"
      using assms(1) by simp_all
    then have "j \<noteq> 3 * i * m \<and> j \<noteq> 3 * i * m + i \<and> j \<noteq> 3 * i * m + 2 * i"
      using True by auto
    then show ?thesis using e'(4) e1(5) that True by simp
  next
    case False
    then have "j div (3 * i) = m" using that(4) by simp
    with dvd_not_triple_cases [OF assms(1) that(2,3)]
    have "j = 3 * i * m + i \<or> j = 3 * i * m + 2 * i" by simp
    then show ?thesis using e'(5,6) that(1) by auto
  qed
  show ?case
    using run e'(2,3) e1(3) c1 c2 by auto
qed


lemma less_next_multiple:
  fixes x b :: nat
  assumes "0 < b"
  shows "x < (x div b + 1) * b"
proof -
  have "x = b * (x div b) + x mod b"
    by (rule mult_div_mod_eq [symmetric])
  moreover have "x mod b < b"
    using assms by simp
  ultimately have "x < b * (x div b) + b"
    by linarith
  then show ?thesis
    by (simp add: algebra_simps)
qed

lemma getEnergyFromDevice_loop_sum:
  fixes e :: "real list" and i B A :: nat
  assumes "0 < i" "0 < B" "B \<le> A"
    and "length e * (3 * A + 1) \<le> 2147483648"
    and "\<forall>j<length e. \<not> i dvd j \<longrightarrow> e ! j = 0"
  shows "\<exists>e'. getEnergyFromDevice_loop c (int (length e)) 3 (int (length e div 3))
                (int i) (int B) e = Some e'
           \<and> length e' = length e \<and> sum_list e' = sum_list e
           \<and> (\<forall>j<length e. 0 < j \<longrightarrow> e' ! j = 0)"
  using assms
proof (induction "length e - i" arbitrary: i B e rule: less_induct)
  case less
  let ?E = "length e"
  let ?n = "length e div 3"
  show ?case
  proof (cases "i < ?E")
    case False
    have run: "getEnergyFromDevice_loop c (int ?E) 3 (int ?n) (int i) (int B) e = Some e"
      using False by (subst getEnergyFromDevice_loop.simps) simp
    have "e ! j = 0" if "j < ?E" "0 < j" for j
    proof -
      have "\<not> i dvd j"
        using that False by (auto dest: dvd_imp_le)
      then show ?thesis using less.prems(5) that(1) by simp
    qed
    with run show ?thesis by simp
  next
    case True
    let ?bs = "(if int B > MAX_WARP c
                then cdiv (int ?n) (int i) \<bind>
                       (\<lambda>q. if q + 1 < int B then cdiv (int B) 2 else Some (int B))
                else Some (int B))"
    have "\<exists>B'. ?bs = Some (int B') \<and> 0 < B' \<and> B' \<le> B"
    proof (cases "int B > MAX_WARP c \<and> int (?n div i) + 1 < int B")
      case False
      have "cdiv (int ?n) (int i) = Some (int (?n div i))"
        using less.prems(1) by (simp add: cdiv_nonneg zdiv_int)
      then have "?bs = Some (int B)"
        using False by auto
      then show ?thesis using less.prems(2) by blast
    next
      case True
      have "cdiv (int ?n) (int i) = Some (int (?n div i))"
        using less.prems(1) by (simp add: cdiv_nonneg zdiv_int)
      moreover have "cdiv (int B) 2 = Some (int (B div 2))"
        by (simp add: cdiv_nonneg zdiv_int)
      ultimately have "?bs = Some (int (B div 2))"
        using True by simp
      moreover have "0 < B div 2" "B div 2 \<le> B"
        using True by simp_all
      ultimately show ?thesis by blast
    qed
    then obtain B' where B': "?bs = Some (int B')" "0 < B'" "B' \<le> B"
      by blast
    let ?q = "?n div (i * B')"
    let ?T = "(?q + 1) * B'"
    have blocks: "cdiv (int ?n) (int i * int B') = Some (int ?q)"
    proof -
      have m: "int i * int B' = int (i * B')" by simp
      have "0 < int (i * B')"
        using less.prems(1) B'(2) by simp
      then have "cdiv (int ?n) (int (i * B')) = Some (int ?n div int (i * B'))"
        by (intro cdiv_nonneg) simp_all
      moreover have "int ?n div int (i * B') = int ?q"
        by (simp only: zdiv_int)
      ultimately show ?thesis
        by (simp only: m)
    qed
    have bound: "3 * i * ?T \<le> 2147483648"
    proof -
      have "(i * B') * ?q \<le> ?n"
        by simp
      then have "3 * ((i * B') * ?q) \<le> ?E"
        by linarith
      moreover have "i * B' \<le> ?E * A"
        using True B'(3) less.prems(3) by (intro mult_le_mono) simp_all
      moreover have "3 * i * ?T = 3 * ((i * B') * ?q) + 3 * (i * B')"
        by (simp add: algebra_simps)
      ultimately have "3 * i * ?T \<le> ?E + 3 * (?E * A)"
        by linarith
      also have "\<dots> = ?E * (3 * A + 1)"
        by (simp add: algebra_simps)
      finally show ?thesis
        using less.prems(4) by linarith
    qed
    from aggregate_pass [OF less.prems(1) bound less.prems(5)]
    obtain e1 where e1:
      "fold (\<lambda>tid m. m \<bind> aggregateEnergies (int ?E) (int i) 3 tid) [0..<?T] (Some e) = Some e1"
      "length e1 = ?E" "sum_list e1 = sum_list e"
      "\<forall>j<?E. \<not> i dvd j \<longrightarrow> e1 ! j = 0"
      "\<forall>j<?E. i dvd j \<and> \<not> 3 * i dvd j \<and> j div (3 * i) < ?T \<longrightarrow> e1 ! j = 0"
      by blast
    have launch: "launch (int ?q + 1) (int B') (aggregateEnergies (int ?E) (int i) 3) e = Some e1"
    proof -
      have "(int ?q + 1) * int B' = int ?T" by (simp add: algebra_simps)
      then have "nat ((int ?q + 1) * int B') = ?T"
        by (simp only: nat_int)
      moreover have "\<not> (int ?q + 1 \<le> 0 \<or> int B' \<le> 0)"
        using B'(2) by simp
      ultimately show ?thesis
        using e1(1) by (simp only: launch_def if_False)
    qed
    have z3: "\<forall>j<length e1. \<not> (i * 3) dvd j \<longrightarrow> e1 ! j = 0"
    proof (intro allI impI)
      fix j assume j: "j < length e1" "\<not> (i * 3) dvd j"
      show "e1 ! j = 0"
      proof (cases "i dvd j")
        case False
        then show ?thesis using e1(4) j(1) e1(2) by simp
      next
        case dv: True
        have "j div (3 * i) \<le> ?E div (3 * i)"
          using j(1) e1(2) by (intro div_le_mono) simp
        also have "?E div (3 * i) = ?n div i"
          by (simp add: div_mult2_eq)
        also have "?n div i < (?n div i div B' + 1) * B'"
          by (rule less_next_multiple [OF B'(2)])
        also have "?n div i div B' = ?q"
          by (simp add: div_mult2_eq)
        finally have "j div (3 * i) < ?T" .
        moreover have "\<not> 3 * i dvd j"
          using j(2) by (simp add: mult.commute)
        ultimately show ?thesis
          using e1(5) dv j(1) e1(2) by simp
      qed
    qed
    have "length e1 - i * 3 < length e - i"
      using True less.prems(1) e1(2) by simp
    from less.hyps [OF this _ B'(2) _ _ z3] less.prems(1,3,4) B'(3) e1(2)
    obtain e' where e':
      "getEnergyFromDevice_loop c (int ?E) 3 (int ?n) (int (i * 3)) (int B') e1 = Some e'"
      "length e' = ?E" "sum_list e' = sum_list e1"
      "\<forall>j<?E. 0 < j \<longrightarrow> e' ! j = 0"
      by auto
    have "getEnergyFromDevice_loop c (int ?E) 3 (int ?n) (int i) (int B) e = Some e'"
      using True B'(1) blocks launch e'(1)
      by (subst getEnergyFromDevice_loop.simps) simp
    then show ?thesis
      using e'(2,3,4) e1(3) by simp
  qed
qed


lemma sum_list_all_zero:
  fixes xs :: "real list"
  shows "\<forall>x\<in>set xs. x = 0 \<Longrightarrow> sum_list xs = 0"
  by (induction xs) simp_all

lemma sum_list_only_head:
  fixes xs :: "real list"
  assumes "xs \<noteq> []" "\<forall>j<length xs. 0 < j \<longrightarrow> xs ! j = 0"
  shows "sum_list xs = xs ! 0"
proof (cases xs)
  case Nil
  with assms(1) show ?thesis by simp
next
  case (Cons x ys)
  have "\<forall>y\<in>set ys. y = 0"
  proof
    fix y assume "y \<in> set ys"
    then obtain k where "k < length ys" "ys ! k = y"
      by (auto simp: in_set_conv_nth)
    then show "y = 0"
      using assms(2) [rule_format, of "Suc k"] Cons by simp
  qed
  then show ?thesis
    using Cons by (simp add: sum_list_all_zero)
qed

lemma getEnergyFromDevice_loop_result:
  assumes "energyCount s = int (length (energiesD s))" "0 < energyCount s"
    and "0 < AGG_BLOCK c" "energyCount s * (3 * AGG_BLOCK c + 1) \<le> 2147483648"
  shows "\<exists>e'. getEnergyFromDevice_loop c (energyCount s) 3 (energyCount s div 3) 1
                (AGG_BLOCK c) (energiesD s) = Some e'
           \<and> length e' = length (energiesD s) \<and> e' ! 0 = sum_list (energiesD s)
           \<and> (\<forall>j<length e'. 0 < j \<longrightarrow> e' ! j = 0)"
proof -
  let ?e = "energiesD s"
  let ?A = "nat (AGG_BLOCK c)"
  have A: "int ?A = AGG_BLOCK c" "0 < ?A"
    using assms(3) by simp_all
  have "int (length ?e * (3 * ?A + 1)) = int (length ?e) * (3 * int ?A + 1)"
    by (simp only: of_nat_mult of_nat_add of_nat_numeral of_nat_1)
  then have "int (length ?e * (3 * ?A + 1)) = energyCount s * (3 * AGG_BLOCK c + 1)"
    by (simp only: assms(1) A(1))
  then have "int (length ?e * (3 * ?A + 1)) \<le> int 2147483648"
    using assms(4) by simp
  then have bound: "length ?e * (3 * ?A + 1) \<le> 2147483648"
    by (simp only: of_nat_le_iff)
  have "\<forall>j<length ?e. \<not> (1::nat) dvd j \<longrightarrow> ?e ! j = 0"
    by simp
  from getEnergyFromDevice_loop_sum [OF _ A(2) _ bound this, of c]
  obtain e' where e':
    "getEnergyFromDevice_loop c (int (length ?e)) 3 (int (length ?e div 3)) (int 1) (int ?A) ?e
       = Some e'"
    "length e' = length ?e" "sum_list e' = sum_list ?e"
    "\<forall>j<length ?e. 0 < j \<longrightarrow> e' ! j = 0"
    by auto
  have "int (length ?e div 3) = energyCount s div 3"
    using assms(1) by (simp add: zdiv_int)
  then have run: "getEnergyFromDevice_loop c (energyCount s) 3 (energyCount s div 3) 1
                    (AGG_BLOCK c) ?e = Some e'"
    using e'(1) assms(1) A(1) by simp
  have "e' \<noteq> []"
    using e'(2) assms(1,2) by auto
  then have "sum_list e' = e' ! 0"
    using e'(2,4) by (intro sum_list_only_head) simp_all
  then show ?thesis
    using run e'(2,3,4) by auto
qed

lemma getEnergyFromDevice_result:
  assumes "energyCount s = int (length (energiesD s))" "0 < energyCount s"
    and "0 < AGG_BLOCK c" "energyCount s * (3 * AGG_BLOCK c + 1) \<le> 2147483648"
  shows "getEnergyFromDevice c s
           = Some (sum_list (energiesD s),
                   s\<lparr>energiesD := replicate (length (energiesD s)) 0\<rparr>)"
proof -
  from getEnergyFromDevice_loop_result [OF assms] obtain e' where e':
    "getEnergyFromDevice_loop c (energyCount s) 3 (energyCount s div 3) 1
       (AGG_BLOCK c) (energiesD s) = Some e'"
    "length e' = length (energiesD s)" "e' ! 0 = sum_list (energiesD s)"
    "\<forall>j<length e'. 0 < j \<longrightarrow> e' ! j = 0"
    by blast
  have pos: "0 < length e'"
    using e'(2) assms(1,2) by simp
  have nb: "cdiv (energyCount s) 3 = Some (energyCount s div 3)"
    using assms(2) by (simp add: cdiv_nonneg)
  have r: "rd e' 0 = Some (sum_list (energiesD s))"
    using pos e'(3) by (simp add: rd_def)
  have "e'[0 := 0] ! j = replicate (length (energiesD s)) 0 ! j" if "j < length (e'[0 := 0])" for j
    using that e'(2,4) by (cases "j = 0") simp_all
  then have "e'[0 := 0] = replicate (length (energiesD s)) 0"
    using e'(2) by (intro nth_equalityI) simp_all
  then have w: "wr e' 0 0 = Some (replicate (length (energiesD s)) 0)"
    using pos by (simp add: wr_def)
  show ?thesis
    using nb e'(1) r w by (simp add: getEnergyFromDevice_def)
qed

text \<open>
  C5. Let the energy buffer hold \<open>energyCount\<close> elements, at least one, and let the
  sizes be small enough that no thread index product wraps at 32 bits. Then the loop of
  \<^verbatim>\<open>getEnergyFromDevice\<close> (interval 1, each pass adding three elements an interval apart
  into the first and zeroing the two consumed, the interval tripled after each pass while
  it is below the length, every access checked against the length) returns, index 0 of
  the buffer then holds the sum of all original elements, and \<^verbatim>\<open>getEnergyFromDevice\<close>
  returns that sum. The length need not be a power of three.
\<close>

theorem reduction_sums_into_slot_zero:
  assumes "energyCount s = int (length (energiesD s))" "0 < energyCount s"
    and "0 < AGG_BLOCK c" "energyCount s * (3 * AGG_BLOCK c + 1) \<le> 2147483648"
  shows "\<exists>e' s'. getEnergyFromDevice_loop c (energyCount s) 3 (energyCount s div 3) 1
                (AGG_BLOCK c) (energiesD s) = Some e'
           \<and> rd e' 0 = Some (sum_list (energiesD s))
           \<and> getEnergyFromDevice c s = Some (sum_list (energiesD s), s')"
proof -
  from getEnergyFromDevice_loop_result [OF assms] obtain e' where e':
    "getEnergyFromDevice_loop c (energyCount s) 3 (energyCount s div 3) 1
       (AGG_BLOCK c) (energiesD s) = Some e'"
    "length e' = length (energiesD s)" "e' ! 0 = sum_list (energiesD s)"
    by blast
  have "rd e' 0 = Some (sum_list (energiesD s))"
    using e'(2,3) assms(1,2) by (simp add: rd_def)
  with e'(1) getEnergyFromDevice_result [OF assms] show ?thesis
    by blast
qed

theorem reduction_sums_into_slot_zero_witness:
  "energyCount (exSim\<lparr>energyCount := 5, energiesD := [1, 2, 3, 4, 5]\<rparr>)
     = int (length (energiesD (exSim\<lparr>energyCount := 5, energiesD := [1, 2, 3, 4, 5]\<rparr>)))
   \<and> 0 < energyCount (exSim\<lparr>energyCount := 5, energiesD := [1, 2, 3, 4, 5]\<rparr>)
   \<and> 0 < AGG_BLOCK exConfig
   \<and> energyCount (exSim\<lparr>energyCount := 5, energiesD := [1, 2, 3, 4, 5]\<rparr>)
         * (3 * AGG_BLOCK exConfig + 1) \<le> 2147483648
   \<and> (\<exists>e' s'. getEnergyFromDevice_loop exConfig 5 3 (5 div 3) 1 2 [1, 2, 3, 4, 5] = Some e'
          \<and> rd e' 0 = Some 15
          \<and> getEnergyFromDevice exConfig (exSim\<lparr>energyCount := 5, energiesD := [1, 2, 3, 4, 5]\<rparr>)
              = Some (15, s'))"
  using reduction_sums_into_slot_zero
          [of "exSim\<lparr>energyCount := 5, energiesD := [1, 2, 3, 4, 5]\<rparr>" exConfig]
  by (simp add: exSim_def exConfig_def)

subsection \<open>The neighbour batch\<close>

text \<open>
  A launch whose thread \<open>tid\<close> writes slot \<open>tid\<close> alone, with a value and under a
  condition that do not depend on the memory written, has the effect of a map over the
  slots.
\<close>

lemma fold_slotwise:
  fixes thread :: "nat \<Rightarrow> 'a list \<Rightarrow> 'a list option"
  assumes "\<And>tid m. tid < n \<Longrightarrow> length m = length m0 \<Longrightarrow>
             thread tid m = Some (if w tid then m[tid := v tid] else m)"
  shows "fold (\<lambda>tid m. m \<bind> thread tid) [0..<n] (Some m0)
           = Some (map (\<lambda>j. if j < n \<and> w j then v j else m0 ! j) [0..<length m0])"
  using assms
proof (induction n)
  case 0
  then show ?case by (simp add: map_nth)
next
  case (Suc n)
  let ?m = "map (\<lambda>j. if j < n \<and> w j then v j else m0 ! j) [0..<length m0]"
  have "fold (\<lambda>tid m. m \<bind> thread tid) [0..<n] (Some m0) = Some ?m"
    using Suc by simp
  moreover have "thread n ?m = Some (if w n then ?m[n := v n] else ?m)"
    using Suc.prems [of n ?m] by simp
  moreover have "(if w n then ?m[n := v n] else ?m)
                   = map (\<lambda>j. if j < Suc n \<and> w j then v j else m0 ! j) [0..<length m0]"
  proof (intro nth_equalityI)
    fix i assume "i < length (if w n then ?m[n := v n] else ?m)"
    then have i: "i < length m0" by (simp split: if_splits)
    show "(if w n then ?m[n := v n] else ?m) ! i
            = map (\<lambda>j. if j < Suc n \<and> w j then v j else m0 ! j) [0..<length m0] ! i"
    proof (cases "i = n")
      case True
      with i show ?thesis by simp
    next
      case False
      with i show ?thesis by (auto simp: less_Suc_eq)
    qed
  qed simp
  ultimately show ?case by simp
qed

lemma periodicR2_returns:
  assumes "0 < env_x enviro" "0 < env_y enviro" "0 < env_z enviro"
  shows "\<exists>r2. periodicR2 atom1 atom2 enviro = Some r2 \<and> 0 \<le> r2"
proof -
  obtain dx where dx: "makePeriodic (atom_x atom1 - atom_x atom2) (env_x enviro) = Some dx"
    using makePeriodic_returns [OF assms(1)] by blast
  obtain dy where dy: "makePeriodic (atom_y atom1 - atom_y atom2) (env_y enviro) = Some dy"
    using makePeriodic_returns [OF assms(2)] by blast
  obtain dz where dz: "makePeriodic (atom_z atom1 - atom_z atom2) (env_z enviro) = Some dz"
    using makePeriodic_returns [OF assms(3)] by blast
  show ?thesis
    using dx dy dz by (simp add: periodicR2_def)
qed

lemma periodicR2_minimumImageR2:
  assumes "0 < env_x enviro" "0 < env_y enviro" "0 < env_z enviro"
  shows "periodicR2 atom1 atom2 enviro = Some (minimumImageR2 atom1 atom2 enviro)"
proof -
  obtain dx where dx: "makePeriodic (atom_x atom1 - atom_x atom2) (env_x enviro) = Some dx"
    "dx * dx = (minimumImage (atom_x atom1 - atom_x atom2) (env_x enviro))\<^sup>2"
    using makePeriodic_minimumImage [OF assms(1)] by blast
  obtain dy where dy: "makePeriodic (atom_y atom1 - atom_y atom2) (env_y enviro) = Some dy"
    "dy * dy = (minimumImage (atom_y atom1 - atom_y atom2) (env_y enviro))\<^sup>2"
    using makePeriodic_minimumImage [OF assms(2)] by blast
  obtain dz where dz: "makePeriodic (atom_z atom1 - atom_z atom2) (env_z enviro) = Some dz"
    "dz * dz = (minimumImage (atom_z atom1 - atom_z atom2) (env_z enviro))\<^sup>2"
    using makePeriodic_minimumImage [OF assms(3)] by blast
  show ?thesis
    using dx dy dz by (simp add: periodicR2_def minimumImageR2_def)
qed

lemma minimumImageR2_nonneg: "0 \<le> minimumImageR2 atom1 atom2 enviro"
  by (simp add: minimumImageR2_def)

lemma checkMoleculeDistances_thread:
  assumes rdy: "batcherReady c s"
    and cur: "0 \<le> cur" "cur < moleculeCount s"
    and tid: "int tid < 2147483648"
    and len: "length flags = length (moleculesD s)"
  shows "checkMoleculeDistances c (moleculesD s) cur start (moleculeCount s) (environmentD s)
           tid flags
         = Some (if int tid < moleculeCount s \<and> start \<le> int tid \<and> int tid \<noteq> cur
                    \<and> withinCutoff (moleculesD s) (environmentD s) cur (int tid)
                 then flags[tid := YES c] else flags)"
proof -
  let ?mols = "moleculesD s" and ?env = "environmentD s"
  let ?p = "primaryAtomIndex ?env"
  have i32: "int32 (int tid) = int tid"
    using tid by (intro int32_id) simp_all
  show ?thesis
  proof (cases "int tid < moleculeCount s \<and> start \<le> int tid \<and> int tid \<noteq> cur")
    case False
    then show ?thesis
      by (auto simp: checkMoleculeDistances_def i32 Let_def)
  next
    case True
    have n: "moleculeCount s = int (length ?mols)"
      using rdy by (simp add: batcherReady_def)
    have m1: "rd ?mols cur = Some (?mols ! nat cur)"
      using cur n by (simp add: rd_def)
    have m2: "rd ?mols (int tid) = Some (?mols ! tid)"
      using True n by (simp add: rd_def)
    have prim: "0 \<le> ?p" "\<And>m. m \<in> set ?mols \<Longrightarrow> ?p < int (length (atoms m))"
      using rdy by (simp_all add: batcherReady_def list_all_iff)
    have "?mols ! nat cur \<in> set ?mols" "?mols ! tid \<in> set ?mols"
      using cur True n by simp_all
    then have a1: "rd (atoms (?mols ! nat cur)) ?p = Some (atoms (?mols ! nat cur) ! nat ?p)"
      and a2: "rd (atoms (?mols ! tid)) ?p = Some (atoms (?mols ! tid) ! nat ?p)"
      using prim by (simp_all add: rd_def)
    define r2 where
      "r2 = minimumImageR2 (atoms (?mols ! nat cur) ! nat ?p) (atoms (?mols ! tid) ! nat ?p) ?env"
    have r2:
      "periodicR2 (atoms (?mols ! nat cur) ! nat ?p) (atoms (?mols ! tid) ! nat ?p) ?env = Some r2"
      unfolding r2_def using rdy
      by (intro periodicR2_minimumImageR2) (simp_all add: batcherReady_def)
    have w: "withinCutoff ?mols ?env cur (int tid) \<longleftrightarrow> r2 < cutoff ?env * cutoff ?env"
      using m1 m2 a1 a2 by (simp add: withinCutoff_def r2_def)
    have wr: "wr flags (int tid) (YES c) = Some (flags[tid := YES c])"
      using True n len by (simp add: wr_def)
    show ?thesis
      using True m1 m2 a1 a2 r2 w wr
      by (simp add: checkMoleculeDistances_def i32 Let_def)
  qed
qed


lemma createMolBatch_loop_result:
  assumes "0 \<le> i" "n \<le> int (length flags)" "0 \<le> k" "k + (n - i) \<le> int (length batch)"
  shows "createMolBatch_loop c n flags i batch k
           = Some (k + int (length (filter (\<lambda>j. flags ! nat j = YES c) [i..n - 1])),
                   take (nat k) batch @ filter (\<lambda>j. flags ! nat j = YES c) [i..n - 1]
                     @ drop (nat k + length (filter (\<lambda>j. flags ! nat j = YES c) [i..n - 1]))
                         batch)"
  using assms
proof (induction c n flags i batch k rule: createMolBatch_loop.induct)
  case (1 c n flags i batch k)
  let ?P = "\<lambda>j. flags ! nat j = YES c"
  show ?case
  proof (cases "i < n")
    case False
    then have "[i..n - 1] = []" by simp
    then show ?thesis
      using False by (subst createMolBatch_loop.simps) simp
  next
    case True
    have up: "[i..n - 1] = i # [i + 1..n - 1]"
      using True by (simp add: upto_rec1)
    have r: "rd flags i = Some (flags ! nat i)"
      using True "1.prems" by (simp add: rd_def)
    show ?thesis
    proof (cases "flags ! nat i = YES c")
      case False
      have "createMolBatch_loop c n flags i batch k
              = createMolBatch_loop c n flags (i + 1) batch k"
        using True r False by (subst createMolBatch_loop.simps) simp
      also have "\<dots> = Some (k + int (length (filter ?P [i + 1..n - 1])),
                   take (nat k) batch @ filter ?P [i + 1..n - 1]
                     @ drop (nat k + length (filter ?P [i + 1..n - 1])) batch)"
        using "1.prems" True by (intro "1.IH"(2) [OF True r False]) simp_all
      finally show ?thesis
        using False up by simp
    next
      case yes: True
      let ?b = "batch[nat k := i]"
      let ?sel = "filter ?P [i + 1..n - 1]"
      have kb: "nat k < length batch"
        using "1.prems" True by linarith
      have w: "wr batch k i = Some ?b"
        using "1.prems" True by (simp add: wr_def)
      have "createMolBatch_loop c n flags i batch k
              = createMolBatch_loop c n flags (i + 1) ?b (k + 1)"
        using True r yes w by (subst createMolBatch_loop.simps) simp
      also have "\<dots> = Some (k + 1 + int (length ?sel),
                   take (nat (k + 1)) ?b @ ?sel @ drop (nat (k + 1) + length ?sel) ?b)"
        using "1.prems" True by (intro "1.IH"(1) [OF True r yes w]) simp_all
      also have "take (nat (k + 1)) ?b = take (nat k) batch @ [i]"
      proof -
        have "nat (k + 1) = Suc (nat k)" using "1.prems"(3) by simp
        then show ?thesis
          using kb by (simp add: take_Suc_conv_app_nth)
      qed
      also have "drop (nat (k + 1) + length ?sel) ?b = drop (nat (k + 1) + length ?sel) batch"
        using "1.prems"(3) by simp
      finally show ?thesis
        using yes up "1.prems"(3) by (simp add: nat_add_distrib)
    qed
  qed
qed

lemma memset_int_minus_one: "memset_int (- 1) = - 1"
  by (simp add: memset_int_def int32_def)

lemma grid_covers:
  assumes "0 \<le> n" "0 < b"
  shows "cdiv n b = Some (n div b)" "n < (n div b + 1) * b" "(n div b + 1) * b \<le> n + b"
        "0 < n div b + 1"
proof -
  show "cdiv n b = Some (n div b)"
    using assms by (rule cdiv_nonneg)
  have "n = b * (n div b) + n mod b"
    by (rule mult_div_mod_eq [symmetric])
  moreover have "0 \<le> n mod b" "n mod b < b"
    using assms(2) by simp_all
  moreover have "(n div b + 1) * b = b * (n div b) + b"
    by (simp add: algebra_simps)
  ultimately show "n < (n div b + 1) * b" "(n div b + 1) * b \<le> n + b"
    by linarith+
  show "0 < n div b + 1"
    using assms by (simp add: pos_imp_zdiv_nonneg_iff add_pos_nonneg)
qed

lemma createMolBatch_result:
  assumes rdy: "batcherReady c s"
    and cur: "0 \<le> cur" "cur < moleculeCount s"
    and start: "0 \<le> start"
  shows "createMolBatch c s cur start
         = Some (int (length (filter (\<lambda>j. j \<noteq> cur
                                \<and> withinCutoff (moleculesD s) (environmentD s) cur j)
                       [start..moleculeCount s - 1])),
                 s\<lparr>nbrMolsD :=
                      map (\<lambda>j. if start \<le> int j \<and> int j \<noteq> cur
                                   \<and> withinCutoff (moleculesD s) (environmentD s) cur (int j)
                                then YES c else memset_int (NO c))
                        [0..<length (moleculesD s)],
                    nbrMolsH :=
                      map (\<lambda>j. if start \<le> int j \<and> int j \<noteq> cur
                                   \<and> withinCutoff (moleculesD s) (environmentD s) cur (int j)
                                then YES c else memset_int (NO c))
                        [0..<length (moleculesD s)],
                    molBatchH :=
                      filter (\<lambda>j. j \<noteq> cur
                                \<and> withinCutoff (moleculesD s) (environmentD s) cur j)
                        [start..moleculeCount s - 1]
                      @ replicate
                          (length (moleculesD s)
                             - length (filter (\<lambda>j. j \<noteq> cur
                                 \<and> withinCutoff (moleculesD s) (environmentD s) cur j)
                                 [start..moleculeCount s - 1]))
                          (- 1)\<rparr>)"
proof -
  let ?N = "length (moleculesD s)"
  let ?w = "\<lambda>j. j \<noteq> cur \<and> withinCutoff (moleculesD s) (environmentD s) cur j"
  let ?flags = "map (\<lambda>j. if start \<le> int j \<and> int j \<noteq> cur
                              \<and> withinCutoff (moleculesD s) (environmentD s) cur (int j)
                           then YES c else memset_int (NO c)) [0..<?N]"
  let ?sel = "filter ?w [start..moleculeCount s - 1]"
  have n: "moleculeCount s = int ?N"
    and lens: "length (nbrMolsD s) = ?N" "length (nbrMolsH s) = ?N" "length (molBatchH s) = ?N"
    and mb: "0 < MOL_BLOCK c" "moleculeCount s + MOL_BLOCK c \<le> 2147483648"
    and yn: "YES c \<noteq> memset_int (NO c)"
    using rdy by (simp_all add: batcherReady_def)
  let ?blocks = "moleculeCount s div MOL_BLOCK c"
  let ?T = "nat ((?blocks + 1) * MOL_BLOCK c)"
  have grid: "cdiv (moleculeCount s) (MOL_BLOCK c) = Some ?blocks"
    "moleculeCount s < (?blocks + 1) * MOL_BLOCK c"
    "(?blocks + 1) * MOL_BLOCK c \<le> moleculeCount s + MOL_BLOCK c" "0 < ?blocks + 1"
    using grid_covers [of "moleculeCount s" "MOL_BLOCK c"] n mb(1) by simp_all
  have ms1: "memset_ints (nbrMolsD s) (NO c) (moleculeCount s)
               = Some (replicate ?N (memset_int (NO c)))"
    using n lens by (simp add: memset_ints_def)
  have thr: "checkMoleculeDistances c (moleculesD s) cur start (moleculeCount s) (environmentD s)
               tid m
             = Some (if int tid < moleculeCount s \<and> start \<le> int tid \<and> int tid \<noteq> cur
                        \<and> withinCutoff (moleculesD s) (environmentD s) cur (int tid)
                     then m[tid := YES c] else m)"
    if "tid < ?T" "length m = length (replicate ?N (memset_int (NO c)))" for tid m
  proof -
    have "int tid < (?blocks + 1) * MOL_BLOCK c"
      using that(1) by linarith
    then have "int tid < 2147483648"
      using grid(3) mb(2) by linarith
    then show ?thesis
      using that(2) by (intro checkMoleculeDistances_thread [OF rdy cur]) simp_all
  qed
  have "fold (\<lambda>tid m. m \<bind> checkMoleculeDistances c (moleculesD s) cur start (moleculeCount s)
                            (environmentD s) tid)
          [0..<?T] (Some (replicate ?N (memset_int (NO c))))
        = Some (map (\<lambda>j. if j < ?T \<and> (int j < moleculeCount s \<and> start \<le> int j \<and> int j \<noteq> cur
                                \<and> withinCutoff (moleculesD s) (environmentD s) cur (int j))
                          then YES c else replicate ?N (memset_int (NO c)) ! j)
                  [0..<length (replicate ?N (memset_int (NO c)))])"
    by (rule fold_slotwise) (rule thr)
  also have "map (\<lambda>j. if j < ?T \<and> (int j < moleculeCount s \<and> start \<le> int j \<and> int j \<noteq> cur
                                \<and> withinCutoff (moleculesD s) (environmentD s) cur (int j))
                          then YES c else replicate ?N (memset_int (NO c)) ! j)
                  [0..<length (replicate ?N (memset_int (NO c)))] = ?flags"
    using grid(2) n by (intro nth_equalityI) auto
  finally have la: "launch (?blocks + 1) (MOL_BLOCK c)
                      (checkMoleculeDistances c (moleculesD s) cur start (moleculeCount s)
                         (environmentD s))
                      (replicate ?N (memset_int (NO c))) = Some ?flags"
    using grid(4) mb(1) by (simp add: launch_def)
  have cp: "memcpy_n (nbrMolsH s) ?flags (moleculeCount s) = Some ?flags"
    using n lens by (simp add: memcpy_n_def)
  have ms2: "memset_ints (molBatchH s) (- 1) (moleculeCount s) = Some (replicate ?N (- 1))"
    using n lens by (simp add: memset_ints_def memset_int_minus_one)
  have "filter (\<lambda>j. ?flags ! nat j = YES c) [start..moleculeCount s - 1] = ?sel"
  proof (intro filter_cong refl)
    fix j assume "j \<in> set [start..moleculeCount s - 1]"
    then have j: "start \<le> j" "j < moleculeCount s" by simp_all
    then have "nat j < ?N" "int (nat j) = j"
      using start n by simp_all
    then show "(?flags ! nat j = YES c) = ?w j"
      using j yn by simp
  qed
  moreover have "length ?sel \<le> ?N"
  proof -
    have "length ?sel \<le> length [start..moleculeCount s - 1]"
      by (rule length_filter_le)
    also have "\<dots> \<le> ?N"
      using start n by simp
    finally show ?thesis .
  qed
  moreover have "createMolBatch_loop c (moleculeCount s) ?flags start (replicate ?N (- 1)) 0
       = Some (0 + int (length (filter (\<lambda>j. ?flags ! nat j = YES c) [start..moleculeCount s - 1])),
               take (nat 0) (replicate ?N (- 1))
                 @ filter (\<lambda>j. ?flags ! nat j = YES c) [start..moleculeCount s - 1]
                 @ drop (nat 0 + length (filter (\<lambda>j. ?flags ! nat j = YES c)
                                           [start..moleculeCount s - 1]))
                     (replicate ?N (- 1)))"
    using start n by (intro createMolBatch_loop_result) simp_all
  ultimately have lp: "createMolBatch_loop c (moleculeCount s) ?flags start (replicate ?N (- 1)) 0
       = Some (int (length ?sel), ?sel @ replicate (?N - length ?sel) (- 1))"
    by simp
  show ?thesis
    using ms1 grid(1) la cp ms2 lp by (simp add: createMolBatch_def)
qed


text \<open>
  C6. In a state ready for batching, for every molecule index \<open>m\<close> and every start index
  \<open>start \<ge> 0\<close>, \<^verbatim>\<open>createMolBatch\<close> returns; the batch size it returns is the number of,
  and the first entries of \<^verbatim>\<open>molBatchH\<close> are exactly, the indices \<open>j\<close> of
  \<open>[start, moleculeCount)\<close> with \<open>j \<noteq> m\<close> for which the squared minimum-image distance
  between the primary atoms of \<open>j\<close> and \<open>m\<close> is strictly below the squared cutoff, in
  ascending order. The batch may be empty.
\<close>

theorem createMolBatch_batch:
  assumes "batcherReady c s" "0 \<le> m" "m < moleculeCount s" "0 \<le> start"
  shows "\<exists>n s'. createMolBatch c s m start = Some (n, s')
           \<and> n = int (length (filter (\<lambda>j. j \<noteq> m
                                \<and> withinCutoff (moleculesD s) (environmentD s) m j)
                       [start..moleculeCount s - 1]))
           \<and> take (nat n) (molBatchH s')
               = filter (\<lambda>j. j \<noteq> m \<and> withinCutoff (moleculesD s) (environmentD s) m j)
                   [start..moleculeCount s - 1]"
  using createMolBatch_result [OF assms] by simp

lemmas ex_defs = exConfig_def exEnv_def exSim_def exBox_def exMolecule_def exAtom_def

lemma exSim_batcherReady: "batcherReady exConfig exSim"
  by (simp add: batcherReady_def ex_defs memset_int_def int32_def)

lemma ex_within: "withinCutoff (moleculesD exSim) (environmentD exSim) 0 1"
  by (simp add: withinCutoff_def ex_defs rd_def minimumImageR2_def minimumImage_def round_def)

lemma exWrapSim_batcherReady: "batcherReady exConfig exWrapSim"
  by (simp add: batcherReady_def exWrapSim_def ex_defs memset_int_def int32_def)

lemma exWrap_within:
  "withinCutoff (moleculesD exWrapSim) (environmentD exWrapSim) 0 1"
  "\<not> withinCutoff (moleculesD exWrapSim) (environmentD exWrapSim) 0 2"
  by (simp_all add: withinCutoff_def exWrapSim_def ex_defs rd_def minimumImageR2_def
        minimumImage_def round_def)

theorem createMolBatch_batch_witness:
  "batcherReady exConfig exWrapSim \<and> (0::int) \<le> 0 \<and> 0 < moleculeCount exWrapSim
   \<and> (\<exists>s'. createMolBatch exConfig exWrapSim 0 0 = Some (1, s')
          \<and> take (nat 1) (molBatchH s') = [1])"
proof -
  have up: "[0..moleculeCount exWrapSim - 1] = [0, 1, 2]"
    by (simp add: exWrapSim_def upto_rec1)
  have "filter (\<lambda>j. j \<noteq> 0
                  \<and> withinCutoff (moleculesD exWrapSim) (environmentD exWrapSim) 0 j)
          [0..moleculeCount exWrapSim - 1] = [1]"
    unfolding up using exWrap_within by simp
  moreover have "0 < moleculeCount exWrapSim"
    by (simp add: exWrapSim_def)
  ultimately show ?thesis
    using createMolBatch_batch [OF exWrapSim_batcherReady, of 0 0] exWrapSim_batcherReady
    by auto
qed

subsection \<open>The pairwise energy kernel\<close>

lemma calc_lj_calcCharge_pairEnergy:
  assumes "0 \<le> r2"
  shows "\<exists>lj coulomb. calc_lj atom1 atom2 r2 = Some lj
           \<and> calcCharge (charge atom1) (charge atom2) (sqrt r2) = Some coulomb
           \<and> 0 + lj + coulomb = pairEnergy atom1 atom2 r2"
proof (cases "r2 = 0")
  case True
  then show ?thesis
    by (simp add: calc_lj_def calcCharge_def pairEnergy_def)
next
  case False
  then have nz: "sqrt r2 \<noteq> 0" by simp
  define S where "S = sqrt (sigma atom1 * sigma atom2)"
  define t where "t = S\<^sup>2 / r2"
  have t: "S * S / r2 = t"
    by (simp add: t_def power2_eq_square)
  have p: "t * t * t = t ^ 3" "t ^ 3 * t ^ 3 = t ^ 6"
    by (simp_all add: eval_nat_numeral)
  have "calc_lj atom1 atom2 r2
          = Some (4 * sqrt (epsilon atom1 * epsilon atom2) * (t ^ 6 - t ^ 3))"
    using False
    by (simp only: calc_lj_def calcBlending_def Let_def rdiv_def S_def [symmetric] t p
          if_False bind.bind_lunit)
  moreover have "calcCharge (charge atom1) (charge atom2) (sqrt r2)
          = Some (charge atom1 * charge atom2 * 332.06 / sqrt r2)"
    using nz by (simp add: calcCharge_def rdiv_def)
  ultimately show ?thesis
    using False by (simp add: pairEnergy_def S_def t_def)
qed

lemma calcInterAtomicEnergy_outside:
  assumes "int tid < 2147483648" "ec \<le> int tid"
  shows "calcInterAtomicEnergy mols cur enviro ec molBatch mms tid e = Some e"
proof -
  have "int32 (int tid) = int tid"
    using assms(1) by (intro int32_id) simp_all
  then show ?thesis
    using assms(2) by (simp add: calcInterAtomicEnergy_def Let_def)
qed

lemma calcInterAtomicEnergy_empty_slot:
  assumes "int tid < 2147483648" "0 < mms"
    and "rd molBatch (int tid div (mms * mms)) = Some (- 1)"
  shows "calcInterAtomicEnergy mols cur enviro ec molBatch mms tid e = Some e"
proof -
  have "int32 (int tid) = int tid"
    using assms(1) by (intro int32_id) simp_all
  moreover have "cdiv (int tid) (mms * mms) = Some (int tid div (mms * mms))"
    using assms(2) by (intro cdiv_nonneg) simp_all
  ultimately show ?thesis
    using assms(3) by (simp add: calcInterAtomicEnergy_def Let_def)
qed

lemma calcInterAtomicEnergy_thread:
  assumes tid: "int tid < ec" "ec \<le> int (length e)" "ec \<le> 2147483648"
    and mms: "0 < mms"
    and slot: "rd molBatch (int tid div (mms * mms)) = Some other" "other \<noteq> - 1"
    and m1: "rd mols cur = Some mol1"
    and m2: "rd mols other = Some mol2"
    and fit: "numOfAtoms mol1 \<le> int (length (atoms mol1))"
             "numOfAtoms mol2 \<le> int (length (atoms mol2))"
    and env: "0 < env_x enviro" "0 < env_y enviro" "0 < env_z enviro"
  shows "\<exists>r2. r2 = minimumImageR2 (atoms mol1 ! nat ((int tid mod (mms * mms)) div mms))
                       (atoms mol2 ! nat ((int tid mod (mms * mms)) mod mms)) enviro
           \<and> calcInterAtomicEnergy mols cur enviro ec molBatch mms tid e
               = Some (if activeCell mol1 mol2 ((int tid mod (mms * mms)) div mms)
                            ((int tid mod (mms * mms)) mod mms)
                       then e[tid := pairEnergy
                                (atoms mol1 ! nat ((int tid mod (mms * mms)) div mms))
                                (atoms mol2 ! nat ((int tid mod (mms * mms)) mod mms)) r2]
                       else e)"
proof -
  let ?seg = "mms * mms"
  let ?cell = "int tid mod ?seg"
  let ?ax = "?cell div mms" and ?ay = "?cell mod mms"
  let ?a1 = "atoms mol1 ! nat ?ax" and ?a2 = "atoms mol2 ! nat ?ay"
  have seg: "0 < ?seg" using mms by simp
  have i32: "int32 (int tid) = int tid"
    using tid by (intro int32_id) simp_all
  have d1: "cdiv (int tid) ?seg = Some (int tid div ?seg)"
    using seg by (intro cdiv_nonneg) simp_all
  have d2: "cmod (int tid) ?seg = Some ?cell"
    using seg by (intro cmod_nonneg) simp_all
  have cell: "0 \<le> ?cell" using seg by simp
  have d3: "cdiv ?cell mms = Some ?ax"
    using cell mms by (intro cdiv_nonneg)
  have d4: "cmod ?cell mms = Some ?ay"
    using cell mms by (intro cmod_nonneg)
  have nn: "0 \<le> ?ax" "0 \<le> ?ay"
    using cell mms by (simp_all add: pos_imp_zdiv_nonneg_iff)
  define r2 where "r2 = minimumImageR2 ?a1 ?a2 enviro"
  have r2: "periodicR2 ?a1 ?a2 enviro = Some r2" "0 \<le> r2"
    unfolding r2_def by (rule periodicR2_minimumImageR2 [OF env]) (rule minimumImageR2_nonneg)
  obtain lj coulomb where en: "calc_lj ?a1 ?a2 r2 = Some lj"
    "calcCharge (charge ?a1) (charge ?a2) (sqrt r2) = Some coulomb"
    "0 + lj + coulomb = pairEnergy ?a1 ?a2 r2"
    using calc_lj_calcCharge_pairEnergy [OF r2(2)] by blast
  have w: "wr e (int tid) (pairEnergy ?a1 ?a2 r2) = Some (e[tid := pairEnergy ?a1 ?a2 r2])"
    using tid by (simp add: wr_def)
  have run: "calcInterAtomicEnergy mols cur enviro ec molBatch mms tid e
               = Some (if activeCell mol1 mol2 ?ax ?ay then e[tid := pairEnergy ?a1 ?a2 r2] else e)"
  proof (cases "?ax < numOfAtoms mol1 \<and> ?ay < numOfAtoms mol2")
    case False
    then have "\<not> activeCell mol1 mol2 ?ax ?ay"
      by (auto simp: activeCell_def)
    then show ?thesis
      using False tid(1) slot m1 m2 d1 d2 d3 d4
      by (auto simp add: calcInterAtomicEnergy_def i32 Let_def)
  next
    case True
    have a1: "rd (atoms mol1) ?ax = Some ?a1"
      using True nn fit by (simp add: rd_def)
    have a2: "rd (atoms mol2) ?ay = Some ?a2"
      using True nn fit by (simp add: rd_def)
    show ?thesis
    proof (cases "sigma ?a1 \<ge> 0 \<and> epsilon ?a1 \<ge> 0 \<and> sigma ?a2 \<ge> 0 \<and> epsilon ?a2 \<ge> 0")
      case False
      then have "\<not> activeCell mol1 mol2 ?ax ?ay"
        by (auto simp: activeCell_def)
      then show ?thesis
        using False True tid(1) slot m1 m2 d1 d2 d3 d4 a1 a2
        by (auto simp add: calcInterAtomicEnergy_def i32 Let_def)
    next
      case act: True
      then have "activeCell mol1 mol2 ?ax ?ay"
        using True by (simp add: activeCell_def)
      then show ?thesis
        using act True tid(1) slot m1 m2 d1 d2 d3 d4 a1 a2 r2(1) en w
        by (simp add: calcInterAtomicEnergy_def i32 Let_def)
    qed
  qed
  with r2_def show ?thesis by blast
qed

lemma int_div_less:
  fixes a b n :: int
  assumes "a < n * b" "0 < b"
  shows "a div b < n"
proof (rule ccontr)
  assume "\<not> a div b < n"
  then have "n * b \<le> (a div b) * b"
    using assms(2) by (intro mult_right_mono) simp_all
  moreover have "(a div b) * b \<le> a"
  proof -
    have "a = b * (a div b) + a mod b"
      by (rule mult_div_mod_eq [symmetric])
    moreover have "0 \<le> a mod b"
      using assms(2) by simp
    moreover have "(a div b) * b = b * (a div b)"
      by simp
    ultimately show ?thesis
      by linarith
  qed
  ultimately show False
    using assms(1) by linarith
qed

lemma calcInterAtomicEnergy_any_thread:
  assumes rdy: "energyReady c s"
    and batch: "list_all (\<lambda>v. v = - 1 \<or> (0 \<le> v \<and> v < moleculeCount s)) batch"
               "length batch = length (moleculesD s)"
    and cur: "0 \<le> cur" "cur < moleculeCount s"
    and tid: "int tid < 2147483648"
    and len: "length e = length (energiesD s)"
  shows "calcInterAtomicEnergy (moleculesD s) cur (environmentD s) (energyCount s) batch
           (maxMolSize s) tid e
         = Some (if cellWrite (moleculesD s) cur (environmentD s) (energyCount s) batch
                      (maxMolSize s) tid \<noteq> None
                 then e[tid := the (cellWrite (moleculesD s) cur (environmentD s) (energyCount s)
                                      batch (maxMolSize s) tid)]
                 else e)"
proof -
  let ?mols = "moleculesD s" and ?env = "environmentD s" and ?ec = "energyCount s"
  let ?mms = "maxMolSize s"
  let ?seg = "?mms * ?mms"
  have n: "moleculeCount s = int (length ?mols)"
    and ec: "?ec = int (length (energiesD s))" "?ec * (3 * AGG_BLOCK c + 1) \<le> 2147483648"
            "0 < AGG_BLOCK c" "0 < ?ec"
    and mms: "0 < ?mms" and cap: "?ec \<le> moleculeCount s * ?seg"
    and env: "0 < env_x ?env" "0 < env_y ?env" "0 < env_z ?env"
    and fit: "\<And>m. m \<in> set ?mols \<Longrightarrow> numOfAtoms m \<le> int (length (atoms m))"
    using rdy unfolding energyReady_def list_all_iff by blast+
  show ?thesis
  proof (cases "int tid < ?ec")
    case False
    then have "cellWrite ?mols cur ?env ?ec batch ?mms tid = None"
      by (simp add: cellWrite_def)
    moreover have "calcInterAtomicEnergy ?mols cur ?env ?ec batch ?mms tid e = Some e"
      using False tid by (intro calcInterAtomicEnergy_outside) simp_all
    ultimately show ?thesis by simp
  next
    case True
    let ?slot = "int tid div ?seg"
    have seg: "0 < ?seg" using mms by simp
    have "int tid < moleculeCount s * ?seg"
      using True cap by linarith
    then have "?slot < moleculeCount s"
      using seg by (rule int_div_less)
    moreover have "0 \<le> ?slot"
      using seg by (simp add: pos_imp_zdiv_nonneg_iff)
    ultimately have slot: "rd batch ?slot = Some (batch ! nat ?slot)" "nat ?slot < length batch"
      using n batch(2) by (simp_all add: rd_def)
    show ?thesis
    proof (cases "batch ! nat ?slot = - 1")
      case empty: True
      then have "cellWrite ?mols cur ?env ?ec batch ?mms tid = None"
        by (simp add: cellWrite_def)
      moreover have "calcInterAtomicEnergy ?mols cur ?env ?ec batch ?mms tid e = Some e"
        using tid mms slot(1) empty by (intro calcInterAtomicEnergy_empty_slot) simp_all
      ultimately show ?thesis by simp
    next
      case False
      let ?other = "batch ! nat ?slot"
      have "?other \<in> set batch"
        using slot(2) by simp
      then have other: "0 \<le> ?other" "?other < moleculeCount s"
        using batch(1) False by (auto simp: list_all_iff)
      have m1: "rd ?mols cur = Some (?mols ! nat cur)"
        using cur n by (simp add: rd_def)
      have m2: "rd ?mols ?other = Some (?mols ! nat ?other)"
        using other n by (simp add: rd_def)
      have "?mols ! nat cur \<in> set ?mols" "?mols ! nat ?other \<in> set ?mols"
        using cur other n by simp_all
      then have f: "numOfAtoms (?mols ! nat cur) \<le> int (length (atoms (?mols ! nat cur)))"
        "numOfAtoms (?mols ! nat ?other) \<le> int (length (atoms (?mols ! nat ?other)))"
        using fit by simp_all
      have small: "?ec \<le> 2147483648"
      proof -
        have "?ec * 1 \<le> ?ec * (3 * AGG_BLOCK c + 1)"
          using ec(3,4) by (intro mult_left_mono) simp_all
        then show ?thesis using ec(2) by simp
      qed
      have le: "?ec \<le> int (length e)"
        using ec(1) len by simp
      from calcInterAtomicEnergy_thread
             [OF True le small mms slot(1) False m1 m2 f env]
      obtain r2 where r2:
        "r2 = minimumImageR2 (atoms (?mols ! nat cur) ! nat ((int tid mod ?seg) div ?mms))
                (atoms (?mols ! nat ?other) ! nat ((int tid mod ?seg) mod ?mms)) ?env"
        "calcInterAtomicEnergy ?mols cur ?env ?ec batch ?mms tid e
           = Some (if activeCell (?mols ! nat cur) (?mols ! nat ?other)
                        ((int tid mod ?seg) div ?mms) ((int tid mod ?seg) mod ?mms)
                   then e[tid := pairEnergy
                            (atoms (?mols ! nat cur) ! nat ((int tid mod ?seg) div ?mms))
                            (atoms (?mols ! nat ?other) ! nat ((int tid mod ?seg) mod ?mms)) r2]
                   else e)"
        by blast
      have "cellWrite ?mols cur ?env ?ec batch ?mms tid
              = (if activeCell (?mols ! nat cur) (?mols ! nat ?other)
                        ((int tid mod ?seg) div ?mms) ((int tid mod ?seg) mod ?mms)
                 then Some (pairEnergy
                            (atoms (?mols ! nat cur) ! nat ((int tid mod ?seg) div ?mms))
                            (atoms (?mols ! nat ?other) ! nat ((int tid mod ?seg) mod ?mms)) r2)
                 else None)"
        using True False r2(1) by (simp add: cellWrite_def Let_def)
      then show ?thesis
        using r2(2) by simp
    qed
  qed
qed

lemma calcInterAtomicEnergy_launch:
  assumes rdy: "energyReady c s"
    and batch: "list_all (\<lambda>v. v = - 1 \<or> (0 \<le> v \<and> v < moleculeCount s)) batch"
               "length batch = length (moleculesD s)"
    and cur: "0 \<le> cur" "cur < moleculeCount s"
    and len: "length e = length (energiesD s)"
  shows "launch (energyCount s div BATCH_BLOCK c + 1) (BATCH_BLOCK c)
           (calcInterAtomicEnergy (moleculesD s) cur (environmentD s) (energyCount s) batch
              (maxMolSize s)) e
         = Some (map (\<lambda>j. case cellWrite (moleculesD s) cur (environmentD s) (energyCount s)
                                  batch (maxMolSize s) j of
                             Some v \<Rightarrow> v | None \<Rightarrow> e ! j)
                   [0..<length e])"
proof -
  let ?cw = "cellWrite (moleculesD s) cur (environmentD s) (energyCount s) batch (maxMolSize s)"
  let ?blocks = "energyCount s div BATCH_BLOCK c"
  let ?T = "nat ((?blocks + 1) * BATCH_BLOCK c)"
  have ec: "energyCount s = int (length (energiesD s))" "0 < energyCount s"
    and bb: "0 < BATCH_BLOCK c" "energyCount s + BATCH_BLOCK c \<le> 2147483648"
    using rdy unfolding energyReady_def by blast+
  have grid: "energyCount s < (?blocks + 1) * BATCH_BLOCK c"
    "(?blocks + 1) * BATCH_BLOCK c \<le> energyCount s + BATCH_BLOCK c" "0 < ?blocks + 1"
    using grid_covers [of "energyCount s" "BATCH_BLOCK c"] ec(2) bb(1) by simp_all
  have thr: "calcInterAtomicEnergy (moleculesD s) cur (environmentD s) (energyCount s) batch
               (maxMolSize s) tid m
             = Some (if ?cw tid \<noteq> None then m[tid := the (?cw tid)] else m)"
    if "tid < ?T" "length m = length e" for tid m
  proof -
    have "int tid < (?blocks + 1) * BATCH_BLOCK c"
      using that(1) by linarith
    then have "int tid < 2147483648"
      using grid(2) bb(2) by linarith
    then show ?thesis
      using that(2) len by (intro calcInterAtomicEnergy_any_thread [OF rdy batch cur]) simp_all
  qed
  have "fold (\<lambda>tid m. m \<bind> calcInterAtomicEnergy (moleculesD s) cur (environmentD s)
                            (energyCount s) batch (maxMolSize s) tid) [0..<?T] (Some e)
        = Some (map (\<lambda>j. if j < ?T \<and> ?cw j \<noteq> None then the (?cw j) else e ! j) [0..<length e])"
    by (rule fold_slotwise) (rule thr)
  also have "map (\<lambda>j. if j < ?T \<and> ?cw j \<noteq> None then the (?cw j) else e ! j) [0..<length e]
               = map (\<lambda>j. case ?cw j of Some v \<Rightarrow> v | None \<Rightarrow> e ! j) [0..<length e]"
  proof (intro map_cong refl)
    fix j assume "j \<in> set [0..<length e]"
    then have "j < ?T"
      using grid(1) ec(1) len by simp
    then show "(if j < ?T \<and> ?cw j \<noteq> None then the (?cw j) else e ! j)
                 = (case ?cw j of Some v \<Rightarrow> v | None \<Rightarrow> e ! j)"
      by (cases "?cw j") simp_all
  qed
  finally show ?thesis
    using grid(3) bb(1) by (simp add: launch_def)
qed

lemma calcBatchEnergy_result:
  assumes rdy: "energyReady c s"
    and batch: "list_all (\<lambda>v. v = - 1 \<or> (0 \<le> v \<and> v < moleculeCount s)) (molBatchH s)"
    and cur: "0 \<le> cur" "cur < moleculeCount s"
    and n: "0 < numMols"
  shows "calcBatchEnergy c s numMols cur
         = Some (sum_list (map (\<lambda>j. case cellWrite (moleculesD s) cur (environmentD s)
                                          (energyCount s) (molBatchH s) (maxMolSize s) j of
                                     Some v \<Rightarrow> v | None \<Rightarrow> (energiesD s)[0 := 0] ! j)
                            [0..<length (energiesD s)]),
                 s\<lparr>energiesD := replicate (length (energiesD s)) 0,
                   molBatchD := molBatchH s\<rparr>)"
proof -
  let ?e = "(energiesD s)[0 := 0]"
  let ?cells = "map (\<lambda>j. case cellWrite (moleculesD s) cur (environmentD s)
                                 (energyCount s) (molBatchH s) (maxMolSize s) j of
                            Some v \<Rightarrow> v | None \<Rightarrow> ?e ! j) [0..<length (energiesD s)]"
  have cnt: "moleculeCount s = int (length (moleculesD s))"
    and lens: "length (molBatchH s) = length (moleculesD s)"
              "length (molBatchD s) = length (moleculesD s)"
    and ec: "energyCount s = int (length (energiesD s))" "0 < energyCount s"
    and agg: "0 < AGG_BLOCK c" "energyCount s * (3 * AGG_BLOCK c + 1) \<le> 2147483648"
    and bb: "0 < BATCH_BLOCK c"
    using rdy unfolding energyReady_def by blast+
  have w: "wr (energiesD s) 0 0 = Some ?e"
    using ec by (simp add: wr_def)
  have cp: "memcpy_n (molBatchD s) (molBatchH s) (moleculeCount s) = Some (molBatchH s)"
    using cnt lens by (simp add: memcpy_n_def)
  have bl: "cdiv (energyCount s) (BATCH_BLOCK c) = Some (energyCount s div BATCH_BLOCK c)"
    using ec(2) bb by (intro cdiv_nonneg) simp_all
  have la: "launch (energyCount s div BATCH_BLOCK c + 1) (BATCH_BLOCK c)
              (calcInterAtomicEnergy (moleculesD s) cur (environmentD s) (energyCount s)
                 (molBatchH s) (maxMolSize s)) ?e = Some ?cells"
    using calcInterAtomicEnergy_launch [OF rdy batch lens(1) cur, of ?e] by simp
  let ?s1 = "s\<lparr>energiesD := ?cells, molBatchD := molBatchH s\<rparr>"
  have "getEnergyFromDevice c ?s1
          = Some (sum_list (energiesD ?s1),
                  ?s1\<lparr>energiesD := replicate (length (energiesD ?s1)) 0\<rparr>)"
    using ec agg by (intro getEnergyFromDevice_result) simp_all
  then have ge: "getEnergyFromDevice c ?s1
          = Some (sum_list ?cells,
                  s\<lparr>energiesD := replicate (length (energiesD s)) 0, molBatchD := molBatchH s\<rparr>)"
    by simp
  show ?thesis
    using n w cp bl la ge by (simp add: calcBatchEnergy_def)
qed

lemma calcInterAtomicEnergy_length:
  assumes "calcInterAtomicEnergy mols cur enviro ec molBatch mms tid e = Some e'"
  shows "length e' = length e"
  using assms
  by (auto simp: calcInterAtomicEnergy_def Let_def wr_def split: if_splits Option.bind_splits)

lemma fold_threads_length:
  fixes thread :: "nat \<Rightarrow> 'a list \<Rightarrow> 'a list option"
  assumes "\<And>tid m m'. thread tid m = Some m' \<Longrightarrow> length m' = length m"
    and "fold (\<lambda>tid m. m \<bind> thread tid) ts (Some m0) = Some m1"
  shows "length m1 = length m0"
  using assms(2)
proof (induction ts arbitrary: m1 rule: rev_induct)
  case Nil
  then show ?case by simp
next
  case (snoc t ts)
  then obtain m where m: "fold (\<lambda>tid m. m \<bind> thread tid) ts (Some m0) = Some m"
    "thread t m = Some m1"
    by (auto split: Option.bind_splits)
  then show ?case
    using snoc.IH [OF m(1)] assms(1) [OF m(2)] by simp
qed

lemma launch_length:
  fixes thread :: "nat \<Rightarrow> 'a list \<Rightarrow> 'a list option"
  assumes "\<And>tid m m'. thread tid m = Some m' \<Longrightarrow> length m' = length m"
    and "launch blocks threads thread m0 = Some m1"
  shows "length m1 = length m0"
  using assms(2) fold_threads_length [of thread _ m0 m1, OF assms(1)]
  by (auto simp: launch_def split: if_splits)


lemma exWrapSim_energyReady: "energyReady exConfig (exWrapSim\<lparr>energiesD := e\<rparr>)"
  if "length e = 3"
  using that by (simp add: energyReady_def exWrapSim_def ex_defs)


text \<open>
  C10. With a non-empty energy buffer of \<open>energyCount\<close> elements and sizes that keep the
  reduction's indices within 32 bits: whenever \<^verbatim>\<open>getEnergyFromDevice\<close> returns, every
  element of the buffer is 0, whatever the buffer held before; whenever
  \<^verbatim>\<open>calcBatchEnergy\<close> is entered with an all-zero buffer and returns, the buffer is
  all-zero again, although \<^verbatim>\<open>calcBatchEnergy\<close> itself clears the first element only; and
  whenever \<^verbatim>\<open>calcBatchEnergy\<close> is given a batch that is not empty and returns, the
  buffer is all-zero, whatever it held before.
\<close>

theorem energy_buffer_zero_after_evaluation:
  assumes "energyCount s = int (length (energiesD s))" "0 < energyCount s"
    and "0 < AGG_BLOCK c" "energyCount s * (3 * AGG_BLOCK c + 1) \<le> 2147483648"
  shows "(\<forall>total s'. getEnergyFromDevice c s = Some (total, s')
            \<longrightarrow> energiesD s' = replicate (length (energiesD s)) 0)
       \<and> (\<forall>numMols molIdx total s'.
            energiesD s = replicate (length (energiesD s)) 0
            \<and> calcBatchEnergy c s numMols molIdx = Some (total, s')
            \<longrightarrow> energiesD s' = replicate (length (energiesD s)) 0)
       \<and> (\<forall>numMols molIdx total s'.
            0 < numMols \<and> calcBatchEnergy c s numMols molIdx = Some (total, s')
            \<longrightarrow> energiesD s' = replicate (length (energiesD s)) 0)"
proof -
  have batch: "energiesD s' = replicate (length (energiesD s)) 0"
    if "0 < numMols" "calcBatchEnergy c s numMols molIdx = Some (total, s')"
    for numMols molIdx total s'
  proof -
    from that obtain e batchD blocks e1 where st:
      "wr (energiesD s) 0 0 = Some e"
      "launch (blocks + 1) (BATCH_BLOCK c)
         (calcInterAtomicEnergy (moleculesD s) molIdx (environmentD s) (energyCount s) batchD
            (maxMolSize s)) e = Some e1"
      "getEnergyFromDevice c (s\<lparr>energiesD := e1, molBatchD := batchD\<rparr>) = Some (total, s')"
      by (auto simp: calcBatchEnergy_def split: Option.bind_splits)
    have "length e = length (energiesD s)"
      using st(1) by (auto simp: wr_def split: if_splits)
    moreover have "length e1 = length e"
      using st(2) by (rule launch_length [rotated]) (rule calcInterAtomicEnergy_length)
    ultimately have len: "length e1 = length (energiesD s)"
      by simp
    let ?s1 = "s\<lparr>energiesD := e1, molBatchD := batchD\<rparr>"
    have "getEnergyFromDevice c ?s1
            = Some (sum_list (energiesD ?s1),
                    ?s1\<lparr>energiesD := replicate (length (energiesD ?s1)) 0\<rparr>)"
      using assms len by (intro getEnergyFromDevice_result) simp_all
    with st(3) len show ?thesis by auto
  qed
  show ?thesis
  proof (intro conjI allI impI)
    fix total s'
    assume "getEnergyFromDevice c s = Some (total, s')"
    then show "energiesD s' = replicate (length (energiesD s)) 0"
      using getEnergyFromDevice_result [OF assms] by auto
  next
    fix numMols molIdx total s'
    assume a: "energiesD s = replicate (length (energiesD s)) 0
               \<and> calcBatchEnergy c s numMols molIdx = Some (total, s')"
    show "energiesD s' = replicate (length (energiesD s)) 0"
    proof (cases "0 < numMols")
      case False
      then have "s' = s"
        using a by (simp add: calcBatchEnergy_def)
      then show ?thesis using a by simp
    next
      case True
      then show ?thesis using a batch by blast
    qed
  next
    fix numMols molIdx total s'
    assume "0 < numMols \<and> calcBatchEnergy c s numMols molIdx = Some (total, s')"
    then show "energiesD s' = replicate (length (energiesD s)) 0"
      using batch by blast
  qed
qed

lemma exWrapSim_cells:
  "cellWrite (moleculesD exWrapSim) 0 (environmentD exWrapSim) 3 [1, 2, - 1] 1 0
     = Some (- 63 / 1024)"
  "cellWrite (moleculesD exWrapSim) 0 (environmentD exWrapSim) 3 [1, 2, - 1] 1 (Suc 0) = None"
  "cellWrite (moleculesD exWrapSim) 0 (environmentD exWrapSim) 3 [1, 2, - 1] 1 (Suc (Suc 0))
     = None"
  by (simp_all add: cellWrite_def Let_def pairEnergy_def exWrapSim_def ex_defs activeCell_def
        minimumImageR2_def minimumImage_def round_def power_divide)

lemma exWrapSim_calcBatchEnergy:
  assumes "length e = 3"
  shows "calcBatchEnergy exConfig (exWrapSim\<lparr>energiesD := e\<rparr>) 2 0
         = Some (- 63 / 1024 + e ! 1 + e ! 2,
                 exWrapSim\<lparr>energiesD := [0, 0, 0], molBatchD := [1, 2, - 1]\<rparr>)"
proof -
  let ?s = "exWrapSim\<lparr>energiesD := e\<rparr>"
  have u: "[0..<3] = [0, Suc 0, Suc (Suc 0)]"
    by (simp add: upt_rec)
  have f: "energyCount exWrapSim = 3" "molBatchH exWrapSim = [1, 2, - 1]"
    "maxMolSize exWrapSim = 1"
    by (simp_all add: exWrapSim_def)
  have "list_all (\<lambda>v. v = - 1 \<or> (0 \<le> v \<and> v < moleculeCount ?s)) (molBatchH ?s)"
    "(0::int) \<le> 0" "0 < moleculeCount ?s" "(0::int) < 2"
    by (simp_all add: exWrapSim_def)
  from calcBatchEnergy_result [OF exWrapSim_energyReady [OF assms] this]
  show ?thesis
    using assms by (simp add: f u exWrapSim_cells eval_nat_numeral)
qed

theorem energy_buffer_zero_after_evaluation_witness:
  "energyCount (exWrapSim\<lparr>energiesD := [7, 7, 7]\<rparr>)
     = int (length (energiesD (exWrapSim\<lparr>energiesD := [7, 7, 7]\<rparr>)))
   \<and> 0 < energyCount (exWrapSim\<lparr>energiesD := [7, 7, 7]\<rparr>) \<and> 0 < AGG_BLOCK exConfig
   \<and> energyCount (exWrapSim\<lparr>energiesD := [7, 7, 7]\<rparr>) * (3 * AGG_BLOCK exConfig + 1)
       \<le> 2147483648
   \<and> (\<exists>s'. getEnergyFromDevice exConfig (exWrapSim\<lparr>energiesD := [7, 7, 7]\<rparr>)
                  = Some (21, s')
          \<and> energiesD s' = [0, 0, 0])
   \<and> (\<exists>s'. calcBatchEnergy exConfig (exWrapSim\<lparr>energiesD := [7, 7, 7]\<rparr>) 2 0
                  = Some (- 63 / 1024 + 14, s')
          \<and> energiesD s' = [0, 0, 0])
   \<and> energiesD exWrapSim = [0, 0, 0]
   \<and> (\<exists>s'. calcBatchEnergy exConfig exWrapSim 2 0 = Some (- 63 / 1024, s')
          \<and> energiesD s' = [0, 0, 0])"
proof -
  let ?d = "exWrapSim\<lparr>energiesD := [7, 7, 7]\<rparr>"
  let ?z = "exWrapSim\<lparr>energiesD := [0, 0, 0]\<rparr>"
  have z: "?z = exWrapSim"
    by (simp add: exWrapSim_def)
  have szd: "energyCount ?d = int (length (energiesD ?d))" "0 < energyCount ?d"
    "0 < AGG_BLOCK exConfig" "energyCount ?d * (3 * AGG_BLOCK exConfig + 1) \<le> 2147483648"
    by (simp_all add: exWrapSim_def ex_defs)
  have szz: "energyCount ?z = int (length (energiesD ?z))" "0 < energyCount ?z"
    "0 < AGG_BLOCK exConfig" "energyCount ?z * (3 * AGG_BLOCK exConfig + 1) \<le> 2147483648"
    by (simp_all add: exWrapSim_def ex_defs)
  obtain s1 where g: "getEnergyFromDevice exConfig ?d = Some (21, s1)"
    using getEnergyFromDevice_result [OF szd] by simp
  obtain s2 where bd: "calcBatchEnergy exConfig ?d 2 0 = Some (- 63 / 1024 + 14, s2)"
    using exWrapSim_calcBatchEnergy [of "[7, 7, 7]"] by simp
  obtain s3 where bz: "calcBatchEnergy exConfig ?z 2 0 = Some (- 63 / 1024, s3)"
    using exWrapSim_calcBatchEnergy [of "[0, 0, 0]"] by simp
  have zero: "energiesD ?z = replicate (length (energiesD ?z)) 0"
    by (simp add: eval_nat_numeral)
  have two: "(0::int) < 2"
    by simp
  note d = energy_buffer_zero_after_evaluation [OF szd]
  have "energiesD s1 = replicate (length (energiesD ?d)) 0"
    using d g by blast
  moreover have "energiesD s2 = replicate (length (energiesD ?d)) 0"
    using d bd two by blast
  moreover have "energiesD s3 = replicate (length (energiesD ?z)) 0"
    using energy_buffer_zero_after_evaluation [OF szz] bz zero by blast
  ultimately have e: "energiesD s1 = [0, 0, 0]" "energiesD s2 = [0, 0, 0]"
    "energiesD s3 = [0, 0, 0]"
    by (simp_all add: eval_nat_numeral)
  have "energiesD exWrapSim = [0, 0, 0]"
    by (simp add: exWrapSim_def)
  with g bd bz [unfolded z] szd e show ?thesis
    by blast
qed

subsection \<open>The driver\<close>

text \<open>
  An energy evaluation writes the scratch buffers only; a copy to the device writes the
  device molecules only.
\<close>

lemma createMolBatch_frame:
  assumes "createMolBatch c s cur start = Some (n, s')"
  shows "\<exists>a b d. s' = s\<lparr>nbrMolsD := a, nbrMolsH := b, molBatchH := d\<rparr>"
  using assms
  by (auto simp: createMolBatch_def split: Option.bind_splits prod.splits)

lemma getEnergyFromDevice_frame:
  assumes "getEnergyFromDevice c s = Some (e, s')"
  shows "\<exists>f. s' = s\<lparr>energiesD := f\<rparr>"
  using assms
  by (auto simp: getEnergyFromDevice_def Let_def split: Option.bind_splits)

lemma calcBatchEnergy_frame:
  assumes "calcBatchEnergy c s n cur = Some (e, s')"
  shows "\<exists>f g. s' = s\<lparr>energiesD := f, molBatchD := g\<rparr>"
proof (cases "0 < n")
  case False
  then have "s' = s"
    using assms by (simp add: calcBatchEnergy_def)
  then have "s' = s\<lparr>energiesD := energiesD s, molBatchD := molBatchD s\<rparr>"
    by simp
  then show ?thesis by blast
next
  case True
  then obtain e1 g where "getEnergyFromDevice c (s\<lparr>energiesD := e1, molBatchD := g\<rparr>) = Some (e, s')"
    using assms by (auto simp: calcBatchEnergy_def split: Option.bind_splits)
  from getEnergyFromDevice_frame [OF this] obtain f where
    "s' = s\<lparr>energiesD := e1, molBatchD := g, energiesD := f\<rparr>"
    by blast
  then have "s' = s\<lparr>energiesD := f, molBatchD := g\<rparr>"
    by simp
  then show ?thesis by blast
qed

lemma calcMolecularEnergyContribution_frame:
  assumes "calcMolecularEnergyContribution c s cur start = Some (e, s')"
  shows "\<exists>a b d f g. s' = s\<lparr>nbrMolsD := a, nbrMolsH := b, molBatchH := d,
                                energiesD := f, molBatchD := g\<rparr>"
proof -
  from assms obtain n s1 where
    b: "createMolBatch c s cur start = Some (n, s1)" and
    e: "calcBatchEnergy c s1 n cur = Some (e, s')"
    by (auto simp: calcMolecularEnergyContribution_def split: Option.bind_splits)
  from createMolBatch_frame [OF b] obtain a b d where
    "s1 = s\<lparr>nbrMolsD := a, nbrMolsH := b, molBatchH := d\<rparr>"
    by blast
  moreover from calcBatchEnergy_frame [OF e] obtain f g where
    "s' = s1\<lparr>energiesD := f, molBatchD := g\<rparr>"
    by blast
  ultimately show ?thesis by blast
qed

lemma writeChangeToDevice_frame:
  assumes "writeChangeToDevice s i = Some s'"
  shows "\<exists>ms. s' = s\<lparr>moleculesD := ms\<rparr>"
  using assms by (auto simp: writeChangeToDevice_def split: Option.bind_splits)

lemma runParallel_step_cases:
  assumes "runParallel_step c u kT d s = Some s'"
  shows "\<exists>Eold s1 box s2 Enew s3 acc.
           calcMolecularEnergyContribution c s (chosen d) 0 = Some (Eold, s1)
         \<and> changeMolecule u (perturb d) (innerbox s1) (chosen d) = Some box
         \<and> writeChangeToDevice (s1\<lparr>innerbox := box\<rparr>) (chosen d) = Some s2
         \<and> calcMolecularEnergyContribution c s2 (chosen d) 0 = Some (Enew, s3)
         \<and> acceptMove Enew Eold kT (uniform d) = Some acc
         \<and> oldEnergy s3 = oldEnergy s \<and> accepted s3 = accepted s \<and> rejected s3 = rejected s
         \<and> eventLog s3 = eventLog s \<and> innerbox s3 = box
         \<and> (if acc
             then s' = s3\<lparr>accepted := accepted s3 + 1,
                          oldEnergy := oldEnergy s3 + (Enew - Eold)\<rparr>
             else \<exists>box'. Rollback box (chosen d) = Some box'
                    \<and> writeChangeToDevice (s3\<lparr>rejected := rejected s3 + 1, innerbox := box'\<rparr>)
                          (chosen d) = Some s')"
proof -
  from assms obtain Eold s1 box s2 Enew s3 acc where st:
    "calcMolecularEnergyContribution c s (chosen d) 0 = Some (Eold, s1)"
    "changeMolecule u (perturb d) (innerbox s1) (chosen d) = Some box"
    "writeChangeToDevice (s1\<lparr>innerbox := box\<rparr>) (chosen d) = Some s2"
    "calcMolecularEnergyContribution c s2 (chosen d) 0 = Some (Enew, s3)"
    "acceptMove Enew Eold kT (uniform d) = Some acc"
    and fin: "(if acc
          then Some (s3\<lparr>accepted := accepted s3 + 1,
                       oldEnergy := oldEnergy s3 + (Enew - Eold)\<rparr>)
          else Rollback (innerbox s3) (chosen d) \<bind>
                 (\<lambda>box'. writeChangeToDevice
                            (s3\<lparr>rejected := rejected s3 + 1, innerbox := box'\<rparr>) (chosen d)))
         = Some s'"
    by (auto simp: runParallel_step_def Let_def split: Option.bind_splits prod.splits)
  from calcMolecularEnergyContribution_frame [OF st(1)] obtain a1 b1 d1 f1 g1 where
    s1: "s1 = s\<lparr>nbrMolsD := a1, nbrMolsH := b1, molBatchH := d1, energiesD := f1, molBatchD := g1\<rparr>"
    by blast
  from writeChangeToDevice_frame [OF st(3)] obtain ms where
    s2: "s2 = s1\<lparr>innerbox := box, moleculesD := ms\<rparr>"
    by blast
  from calcMolecularEnergyContribution_frame [OF st(4)] obtain a3 b3 d3 f3 g3 where
    s3: "s3 = s2\<lparr>nbrMolsD := a3, nbrMolsH := b3, molBatchH := d3, energiesD := f3, molBatchD := g3\<rparr>"
    by blast
  have keep: "oldEnergy s3 = oldEnergy s" "accepted s3 = accepted s" "rejected s3 = rejected s"
    "eventLog s3 = eventLog s" "innerbox s3 = box"
    by (simp_all add: s1 s2 s3)
  have "if acc
        then s' = s3\<lparr>accepted := accepted s3 + 1, oldEnergy := oldEnergy s3 + (Enew - Eold)\<rparr>
        else \<exists>box'. Rollback box (chosen d) = Some box'
               \<and> writeChangeToDevice (s3\<lparr>rejected := rejected s3 + 1, innerbox := box'\<rparr>)
                     (chosen d) = Some s'"
    using fin keep(5) by (auto split: if_splits Option.bind_splits)
  with st keep show ?thesis by blast
qed


lemma calcMolecularEnergyContribution_returns:
  assumes b: "batcherReady c s" and e: "energyReady c s"
    and cur: "0 \<le> cur" "cur < moleculeCount s" and start: "0 \<le> start"
  shows "\<exists>en a d f g.
           calcMolecularEnergyContribution c s cur start
             = Some (en, s\<lparr>nbrMolsD := a, nbrMolsH := a, molBatchH := d,
                           energiesD := f, molBatchD := g\<rparr>)
           \<and> length a = length (moleculesD s) \<and> length d = length (moleculesD s)
           \<and> length f = length (energiesD s) \<and> length g = length (moleculesD s)"
proof -
  let ?N = "length (moleculesD s)"
  let ?sel = "filter (\<lambda>j. j \<noteq> cur \<and> withinCutoff (moleculesD s) (environmentD s) cur j)
                [start..moleculeCount s - 1]"
  let ?flags = "map (\<lambda>j. if start \<le> int j \<and> int j \<noteq> cur
                              \<and> withinCutoff (moleculesD s) (environmentD s) cur (int j)
                           then YES c else memset_int (NO c)) [0..<?N]"
  let ?batch = "?sel @ replicate (?N - length ?sel) (- 1)"
  let ?s1 = "s\<lparr>nbrMolsD := ?flags, nbrMolsH := ?flags, molBatchH := ?batch\<rparr>"
  have cnt: "moleculeCount s = int ?N"
    and lenD: "length (molBatchD s) = ?N"
    using e unfolding energyReady_def by blast+
  have cb: "createMolBatch c s cur start = Some (int (length ?sel), ?s1)"
    by (rule createMolBatch_result [OF b cur start])
  have sel_le: "length ?sel \<le> ?N"
  proof -
    have "length ?sel \<le> length [start..moleculeCount s - 1]"
      by (rule length_filter_le)
    also have "\<dots> \<le> ?N"
      using start cnt by simp
    finally show ?thesis .
  qed
  then have lb: "length ?batch = ?N"
    by simp
  show ?thesis
  proof (cases "0 < int (length ?sel)")
    case False
    then have "calcBatchEnergy c ?s1 (int (length ?sel)) cur = Some (0, ?s1)"
      by (simp add: calcBatchEnergy_def)
    then have "calcMolecularEnergyContribution c s cur start
                 = Some (0, s\<lparr>nbrMolsD := ?flags, nbrMolsH := ?flags, molBatchH := ?batch,
                               energiesD := energiesD s, molBatchD := molBatchD s\<rparr>)"
      using cb by (simp add: calcMolecularEnergyContribution_def)
    moreover have "length ?flags = ?N" by simp
    ultimately show ?thesis
      using lb lenD
      by (intro exI [where x = 0] exI [where x = ?flags] exI [where x = ?batch]
            exI [where x = "energiesD s"] exI [where x = "molBatchD s"] conjI) (assumption | rule refl)+
  next
    case True
    have e1: "energyReady c ?s1"
      using e lb unfolding energyReady_def by auto
    have valid: "list_all (\<lambda>v. v = - 1 \<or> (0 \<le> v \<and> v < moleculeCount ?s1)) (molBatchH ?s1)"
      using start by (auto simp: list_all_iff)
    have cur1: "cur < moleculeCount ?s1" using cur by simp
    from calcBatchEnergy_result [OF e1 valid cur(1) cur1 True]
    obtain en where "calcBatchEnergy c ?s1 (int (length ?sel)) cur
         = Some (en, ?s1\<lparr>energiesD := replicate (length (energiesD ?s1)) 0,
                        molBatchD := molBatchH ?s1\<rparr>)"
      by blast
    then have "calcMolecularEnergyContribution c s cur start
                 = Some (en, s\<lparr>nbrMolsD := ?flags, nbrMolsH := ?flags, molBatchH := ?batch,
                               energiesD := replicate (length (energiesD s)) 0,
                               molBatchD := ?batch\<rparr>)"
      using cb by (simp add: calcMolecularEnergyContribution_def)
    moreover have "length ?flags = ?N"
      "length (replicate (length (energiesD s)) (0::real)) = length (energiesD s)"
      by simp_all
    ultimately show ?thesis
      using lb
      by (intro exI [where x = en] exI [where x = ?flags] exI [where x = ?batch]
            exI [where x = "replicate (length (energiesD s)) 0"] conjI) (assumption | rule refl)+
  qed
qed


lemma list_all_update:
  assumes "list_all P xs" "P x"
  shows "list_all P (xs[i := x])"
  using assms set_update_subset_insert [of xs i x] by (auto simp: list_all_iff)

lemma saveChangedMole_result:
  assumes m: "rd (molecules box) moleno = Some m" and fit: "countsFit m"
  shows "\<exists>c'. saveChangedMole u box moleno = Some (box\<lparr>changedmole := c'\<rparr>)
           \<and> observable c' = observable m
           \<and> length (atoms c') = nat (numOfAtoms m) \<and> length (bonds c') = nat (numOfBonds m)
           \<and> length (angles c') = nat (numOfAngles m)
           \<and> length (dihedrals c') = nat (numOfDihedrals m)
           \<and> length (hops c') = nat (numOfHops m)"
proof -
  let ?c = "m\<lparr>atoms := malloc (u_atom u) (numOfAtoms m),
               bonds := malloc (u_bond u) (numOfBonds m),
               angles := malloc (u_angle u) (numOfAngles m),
               dihedrals := malloc (u_dihedral u) (numOfDihedrals m),
               hops := malloc (u_hop u) (numOfHops m)\<rparr>"
  have "\<exists>r. copyMolecule ?c m = Some r \<and> observable r = observable m \<and> sameArrays r ?c"
    by (rule copyMolecule_observable) (use fit in \<open>simp_all add: countsFit_def malloc_def\<close>)
  then obtain c' where c': "copyMolecule ?c m = Some c'" "observable c' = observable m"
      "sameArrays c' ?c"
    by blast
  have "saveChangedMole u box moleno = Some (box\<lparr>changedmole := c'\<rparr>)"
    using m c'(1) by (simp add: saveChangedMole_def)
  moreover have "length (atoms c') = nat (numOfAtoms m)" "length (bonds c') = nat (numOfBonds m)"
      "length (angles c') = nat (numOfAngles m)"
      "length (dihedrals c') = nat (numOfDihedrals m)"
      "length (hops c') = nat (numOfHops m)"
    using c'(3) by (simp_all add: sameArrays_def malloc_def)
  ultimately show ?thesis
    using c'(2) by blast
qed

lemma Rollback_result:
  assumes m': "rd (molecules box) moleno = Some m'"
    and chk: "observable (changedmole box) = observable m"
      "length (atoms (changedmole box)) = nat (numOfAtoms m)"
      "length (bonds (changedmole box)) = nat (numOfBonds m)"
      "length (angles (changedmole box)) = nat (numOfAngles m)"
      "length (dihedrals (changedmole box)) = nat (numOfDihedrals m)"
      "length (hops (changedmole box)) = nat (numOfHops m)"
    and fit: "countsFit m" and same: "sameArrays m' m"
  shows "\<exists>r. Rollback box moleno = Some (box\<lparr>molecules := (molecules box)[nat moleno := r]\<rparr>)
           \<and> observable r = observable m \<and> sameArrays r m"
proof -
  let ?c = "changedmole box"
  have counts: "numOfAtoms ?c = numOfAtoms m" "numOfBonds ?c = numOfBonds m"
      "numOfAngles ?c = numOfAngles m" "numOfDihedrals ?c = numOfDihedrals m"
      "numOfHops ?c = numOfHops m"
    using chk(1) by (simp_all add: observable_def)
  have "\<exists>r. copyMolecule m' ?c = Some r \<and> observable r = observable ?c \<and> sameArrays r m'"
    by (rule copyMolecule_observable)
      (use fit same counts chk(2-6) in \<open>simp_all add: countsFit_def sameArrays_def\<close>)
  then obtain r where r: "copyMolecule m' ?c = Some r" "observable r = observable ?c"
    "sameArrays r m'"
    by blast
  have idx: "0 \<le> moleno" "moleno < int (length (molecules box))"
    using m' by (auto simp: rd_def split: if_splits)
  have "Rollback box moleno = Some (box\<lparr>molecules := (molecules box)[nat moleno := r]\<rparr>)"
    using m' idx r(1) by (simp add: Rollback_def wr_def)
  moreover have "sameArrays r m"
    using r(3) same by (simp add: sameArrays_def)
  ultimately show ?thesis
    using r(2) chk(1) by auto
qed

lemma sameArrays_countsFit:
  assumes "countsFit m" "sameArrays r m" "observable r = observable m"
  shows "countsFit r"
  using assms by (simp add: countsFit_def sameArrays_def observable_def)


lemma driverReady_transfer:
  assumes "driverReady c s"
    and "moleculeCount s' = moleculeCount s" "energyCount s' = energyCount s"
        "maxMolSize s' = maxMolSize s" "environmentD s' = environmentD s"
    and "length (nbrMolsD s') = length (moleculesD s)" "length (nbrMolsH s') = length (moleculesD s)"
        "length (molBatchH s') = length (moleculesD s)" "length (molBatchD s') = length (moleculesD s)"
        "length (energiesD s') = length (energiesD s)"
        "length (moleculesD s') = length (moleculesD s)"
        "length (molecules (innerbox s')) = length (moleculesD s)"
    and "list_all (\<lambda>m. numOfAtoms m \<le> int (length (atoms m))
                      \<and> primaryAtomIndex (environmentD s) < int (length (atoms m)))
           (moleculesD s')"
    and "list_all (\<lambda>m. countsFit m \<and> primaryAtomIndex (environmentD s) < int (length (atoms m)))
           (molecules (innerbox s'))"
  shows "driverReady c s'"
proof -
  have b: "batcherReady c s" and e: "energyReady c s"
    using assms(1) unfolding driverReady_def by blast+
  have "batcherReady c s'"
    using b assms(2-13) unfolding batcherReady_def list_all_iff by clarsimp
  moreover have "energyReady c s'"
    using e assms(2-13) unfolding energyReady_def list_all_iff by clarsimp
  ultimately show ?thesis
    using assms(5,11,12,14) unfolding driverReady_def by simp
qed

lemma driverReady_device:
  assumes "driverReady c s"
  shows "list_all (\<lambda>m. numOfAtoms m \<le> int (length (atoms m))
                      \<and> primaryAtomIndex (environmentD s) < int (length (atoms m)))
           (moleculesD s)"
proof -
  have "batcherReady c s" and "energyReady c s"
    using assms unfolding driverReady_def by blast+
  then show ?thesis
    unfolding batcherReady_def energyReady_def list_all_iff by clarsimp
qed

lemma acceptMove_returns: "kT \<noteq> 0 \<Longrightarrow> \<exists>acc. acceptMove Enew Eold kT v = Some acc"
  by (auto simp: acceptMove_def rdiv_def)


lemma changeMolecule_result:
  assumes m: "rd (molecules box) moleno = Some m" and fit: "countsFit m"
  shows "\<exists>c'. changeMolecule u mv box moleno
             = Some (box\<lparr>changedmole := c',
                       molecules := (molecules box)
                         [nat moleno := m\<lparr>atoms := map (mv (atoms m)) [0..<length (atoms m)]\<rparr>]\<rparr>)
           \<and> observable c' = observable m
           \<and> length (atoms c') = nat (numOfAtoms m) \<and> length (bonds c') = nat (numOfBonds m)
           \<and> length (angles c') = nat (numOfAngles m)
           \<and> length (dihedrals c') = nat (numOfDihedrals m)
           \<and> length (hops c') = nat (numOfHops m)"
proof -
  from saveChangedMole_result [OF m fit, of u] obtain c' where c':
    "saveChangedMole u box moleno = Some (box\<lparr>changedmole := c'\<rparr>)"
    "observable c' = observable m"
    "length (atoms c') = nat (numOfAtoms m)" "length (bonds c') = nat (numOfBonds m)"
    "length (angles c') = nat (numOfAngles m)" "length (dihedrals c') = nat (numOfDihedrals m)"
    "length (hops c') = nat (numOfHops m)"
    by blast
  have idx: "0 \<le> moleno" "moleno < int (length (molecules box))"
    using m by (auto simp: rd_def split: if_splits)
  have "changeMolecule u mv box moleno
          = Some (box\<lparr>changedmole := c',
                    molecules := (molecules box)
                      [nat moleno := m\<lparr>atoms := map (mv (atoms m)) [0..<length (atoms m)]\<rparr>]\<rparr>)"
    using c'(1) m idx by (simp add: changeMolecule_def wr_def)
  with c'(2-7) show ?thesis by blast
qed

lemma runParallel_step_returns:
  assumes rdy: "driverReady c s"
    and idx: "0 \<le> chosen d" "chosen d < moleculeCount s"
    and kT: "kT \<noteq> 0"
  shows "\<exists>s'. runParallel_step c u kT d s = Some s' \<and> driverReady c s'
           \<and> moleculeCount s' = moleculeCount s \<and> environment s' = environment s"
proof -
  let ?i = "chosen d"
  let ?N = "length (moleculesD s)"
  let ?dev = "\<lambda>m::('a, 'b, 'c, 'd) Molecule. numOfAtoms m \<le> int (length (atoms m))
                \<and> primaryAtomIndex (environmentD s) < int (length (atoms m))"
  let ?host = "\<lambda>m::('a, 'b, 'c, 'd) Molecule. countsFit m
                \<and> primaryAtomIndex (environmentD s) < int (length (atoms m))"
  have b: "batcherReady c s" and e: "energyReady c s"
    and hl: "length (molecules (innerbox s)) = ?N"
    and hok: "list_all ?host (molecules (innerbox s))"
    using rdy unfolding driverReady_def by blast+
  have cnt: "moleculeCount s = int ?N"
    using b unfolding batcherReady_def by blast
  have dok: "list_all ?dev (moleculesD s)"
    by (rule driverReady_device [OF rdy])
  \<comment> \<open>the old contribution\<close>
  from calcMolecularEnergyContribution_returns [OF b e idx, of 0]
  obtain Eold a1 d1 f1 g1 where c1:
    "calcMolecularEnergyContribution c s ?i 0
       = Some (Eold, s\<lparr>nbrMolsD := a1, nbrMolsH := a1, molBatchH := d1,
                        energiesD := f1, molBatchD := g1\<rparr>)"
    "length a1 = ?N" "length d1 = ?N" "length f1 = length (energiesD s)" "length g1 = ?N"
    by auto
  let ?s1 = "s\<lparr>nbrMolsD := a1, nbrMolsH := a1, molBatchH := d1, energiesD := f1, molBatchD := g1\<rparr>"
  \<comment> \<open>the move\<close>
  let ?m = "molecules (innerbox s) ! nat ?i"
  let ?m' = "?m\<lparr>atoms := map (perturb d (atoms ?m)) [0..<length (atoms ?m)]\<rparr>"
  have rm: "rd (molecules (innerbox s)) ?i = Some ?m"
    using idx cnt hl by (simp add: rd_def)
  have "?m \<in> set (molecules (innerbox s))"
    using idx cnt hl by simp
  then have mok: "countsFit ?m" "primaryAtomIndex (environmentD s) < int (length (atoms ?m))"
    using hok by (simp_all add: list_all_iff)
  from changeMolecule_result [OF rm mok(1), of u "perturb d"]
  obtain c' where ch:
    "changeMolecule u (perturb d) (innerbox s) ?i
       = Some ((innerbox s)\<lparr>changedmole := c',
                  molecules := (molecules (innerbox s))[nat ?i := ?m']\<rparr>)"
    "observable c' = observable ?m"
    "length (atoms c') = nat (numOfAtoms ?m)" "length (bonds c') = nat (numOfBonds ?m)"
    "length (angles c') = nat (numOfAngles ?m)" "length (dihedrals c') = nat (numOfDihedrals ?m)"
    "length (hops c') = nat (numOfHops ?m)"
    by blast
  let ?box = "(innerbox s)\<lparr>changedmole := c', molecules := (molecules (innerbox s))[nat ?i := ?m']\<rparr>"
  have m'ok: "?host ?m'" "?dev ?m'"
    using mok by (simp_all add: countsFit_def)
  let ?s2 = "?s1\<lparr>innerbox := ?box, moleculesD := (moleculesD s)[nat ?i := ?m']\<rparr>"
  have wd: "writeChangeToDevice (?s1\<lparr>innerbox := ?box\<rparr>) ?i = Some ?s2"
    using idx cnt hl by (simp add: writeChangeToDevice_def rd_def wr_def)
  have r2: "driverReady c ?s2"
    using c1(2-5) hl list_all_update [OF dok m'ok(2)] list_all_update [OF hok m'ok(1)]
    by (intro driverReady_transfer [OF rdy]) simp_all
  then have b2: "batcherReady c ?s2" and e2: "energyReady c ?s2"
    unfolding driverReady_def by blast+
  \<comment> \<open>the new contribution\<close>
  have idx2: "?i < moleculeCount ?s2" using idx by simp
  from calcMolecularEnergyContribution_returns [OF b2 e2 idx(1) idx2, of 0]
  obtain Enew a3 d3 f3 g3 where c3:
    "calcMolecularEnergyContribution c ?s2 ?i 0
       = Some (Enew, ?s2\<lparr>nbrMolsD := a3, nbrMolsH := a3, molBatchH := d3,
                          energiesD := f3, molBatchD := g3\<rparr>)"
    "length a3 = ?N" "length d3 = ?N" "length f3 = length (energiesD s)" "length g3 = ?N"
    using c1(4) by auto
  let ?s3 = "?s2\<lparr>nbrMolsD := a3, nbrMolsH := a3, molBatchH := d3, energiesD := f3, molBatchD := g3\<rparr>"
  obtain acc where acc: "acceptMove Enew Eold kT (uniform d) = Some acc"
    using acceptMove_returns [OF kT] by blast
  show ?thesis
  proof (cases acc)
    case True
    let ?s' = "?s3\<lparr>accepted := accepted ?s3 + 1, oldEnergy := oldEnergy ?s3 + (Enew - Eold)\<rparr>"
    have "runParallel_step c u kT d s = Some ?s'"
      using c1(1) ch(1) wd c3(1) acc True by (simp add: runParallel_step_def Let_def)
    moreover have "driverReady c ?s'"
      using c3(2-5) hl list_all_update [OF dok m'ok(2)] list_all_update [OF hok m'ok(1)]
      by (intro driverReady_transfer [OF rdy]) simp_all
    ultimately show ?thesis by simp
  next
    case False
    have rm': "rd (molecules ?box) ?i = Some ?m'"
      using idx cnt hl by (simp add: rd_def)
    have same: "sameArrays ?m' ?m"
      by (simp add: sameArrays_def)
    from Rollback_result [OF rm' _ _ _ _ _ _ mok(1) same] ch(2-7)
    obtain r where r:
      "Rollback ?box ?i = Some (?box\<lparr>molecules := (molecules ?box)[nat ?i := r]\<rparr>)"
      "observable r = observable ?m" "sameArrays r ?m"
      by auto
    have rok: "?host r" "?dev r"
      using sameArrays_countsFit [OF mok(1) r(3,2)] r(3) mok(2)
      by (simp_all add: sameArrays_def countsFit_def)
    let ?box' = "?box\<lparr>molecules := (molecules (innerbox s))[nat ?i := r]\<rparr>"
    let ?s' = "?s3\<lparr>rejected := rejected ?s3 + 1, innerbox := ?box',
                   moleculesD := (moleculesD s)[nat ?i := r]\<rparr>"
    have rb: "Rollback (innerbox ?s3) ?i = Some ?box'"
      using r(1) by simp
    have wd': "writeChangeToDevice (?s3\<lparr>rejected := rejected ?s3 + 1, innerbox := ?box'\<rparr>) ?i
                 = Some ?s'"
      using idx cnt hl by (simp add: writeChangeToDevice_def rd_def wr_def)
    have "runParallel_step c u kT d s = Some ?s'"
      using c1(1) ch(1) wd c3(1) acc False rb wd'
      by (simp add: runParallel_step_def Let_def)
    moreover have "driverReady c ?s'"
      using c3(2-5) hl list_all_update [OF dok rok(2)] list_all_update [OF hok rok(1)]
      by (intro driverReady_transfer [OF rdy]) simp_all
    ultimately show ?thesis by simp
  qed
qed


lemma driverReady_ghost:
  assumes "driverReady c s"
  shows "driverReady c (s\<lparr>eventLog := l\<rparr>)" "driverReady c (s\<lparr>oldEnergy := x\<rparr>)"
proof -
  have h: "length (molecules (innerbox s)) = length (moleculesD s)"
    "list_all (\<lambda>m. countsFit m \<and> primaryAtomIndex (environmentD s) < int (length (atoms m)))
       (molecules (innerbox s))"
    and b: "batcherReady c s" and e: "energyReady c s"
    using assms unfolding driverReady_def by blast+
  have l: "length (nbrMolsD s) = length (moleculesD s)" "length (nbrMolsH s) = length (moleculesD s)"
    "length (molBatchH s) = length (moleculesD s)" "length (molBatchD s) = length (moleculesD s)"
    using b e unfolding batcherReady_def energyReady_def by blast+
  show "driverReady c (s\<lparr>eventLog := l\<rparr>)"
    using h l driverReady_device [OF assms]
    by (intro driverReady_transfer [OF assms]) simp_all
  show "driverReady c (s\<lparr>oldEnergy := x\<rparr>)"
    using h l driverReady_device [OF assms]
    by (intro driverReady_transfer [OF assms]) simp_all
qed

lemma runParallel_step_log:
  assumes "runParallel_step c u kT d s = Some s'"
  shows "eventLog s' = eventLog s"
proof -
  from runParallel_step_cases [OF assms] obtain Eold Enew s3 acc box where st:
    "eventLog s3 = eventLog s"
    "if acc
     then s' = s3\<lparr>accepted := accepted s3 + 1, oldEnergy := oldEnergy s3 + (Enew - Eold)\<rparr>
     else \<exists>box'. Rollback box (chosen d) = Some box'
            \<and> writeChangeToDevice (s3\<lparr>rejected := rejected s3 + 1, innerbox := box'\<rparr>)
                  (chosen d) = Some s'"
    by blast
  show ?thesis
  proof (cases acc)
    case True
    with st show ?thesis by simp
  next
    case False
    with st(2) obtain box' where
      "writeChangeToDevice (s3\<lparr>rejected := rejected s3 + 1, innerbox := box'\<rparr>) (chosen d)
         = Some s'"
      by auto
    from writeChangeToDevice_frame [OF this] st(1) show ?thesis
      by auto
  qed
qed

lemma runParallel_loop_log:
  assumes "runParallel_loop c u kT draws steps move s = Some s'"
  shows "eventLog s' = eventLog s @ map Step [move..steps - 1]"
  using assms
proof (induction c u kT draws steps move s rule: runParallel_loop.induct)
  case (1 c u kT draws steps move s)
  show ?case
  proof (cases "move < steps")
    case False
    then have "s' = s"
      using "1.prems" by (subst (asm) runParallel_loop.simps) simp
    with False show ?thesis by simp
  next
    case True
    then obtain s1 where s1:
      "runParallel_step c u kT (draws (nat move)) (s\<lparr>eventLog := eventLog s @ [Step move]\<rparr>)
         = Some s1"
      "runParallel_loop c u kT draws steps (move + 1) s1 = Some s'"
      using "1.prems" by (subst (asm) runParallel_loop.simps) (auto split: option.splits)
    have "eventLog s1 = eventLog s @ [Step move]"
      using runParallel_step_log [OF s1(1)] by simp
    moreover have "eventLog s' = eventLog s1 @ map Step [move + 1..steps - 1]"
      by (rule "1.IH" [OF True s1(1) s1(2)])
    moreover have "[move..steps - 1] = move # [move + 1..steps - 1]"
      using True by (simp add: upto_rec1)
    ultimately show ?thesis by simp
  qed
qed

lemma runParallel_loop_returns:
  assumes "driverReady c s" "kT \<noteq> 0"
    and "\<forall>k. 0 \<le> chosen (draws k) \<and> chosen (draws k) < moleculeCount s"
  shows "\<exists>s'. runParallel_loop c u kT draws steps move s = Some s'"
  using assms
proof (induction c u kT draws steps move s rule: runParallel_loop.induct)
  case (1 c u kT draws steps move s)
  show ?case
  proof (cases "move < steps")
    case False
    then show ?thesis
      by (subst runParallel_loop.simps) simp
  next
    case True
    let ?s0 = "s\<lparr>eventLog := eventLog s @ [Step move]\<rparr>"
    have r0: "driverReady c ?s0"
      by (rule driverReady_ghost(1) [OF "1.prems"(1)])
    have "0 \<le> chosen (draws (nat move))" "chosen (draws (nat move)) < moleculeCount ?s0"
      using "1.prems"(3) by simp_all
    from runParallel_step_returns [OF r0 this "1.prems"(2), of u]
    obtain s1 where s1: "runParallel_step c u kT (draws (nat move)) ?s0 = Some s1"
      "driverReady c s1" "moleculeCount s1 = moleculeCount s"
      by auto
    have "\<exists>s'. runParallel_loop c u kT draws steps (move + 1) s1 = Some s'"
      using "1.prems"(2,3) s1(3) by (intro "1.IH" [OF True s1(1) s1(2)]) simp_all
    then show ?thesis
      using True s1(1) by (subst runParallel_loop.simps) simp
  qed
qed

lemma calcSystemEnergy_loop_log:
  assumes "calcSystemEnergy_loop c n mol tot s = Some (e, s')"
  shows "eventLog s' = eventLog s \<and> environment s' = environment s"
  using assms
proof (induction c n mol tot s rule: calcSystemEnergy_loop.induct)
  case (1 c n mol tot s)
  show ?case
  proof (cases "mol < n")
    case False
    then have "s' = s"
      using "1.prems" by (subst (asm) calcSystemEnergy_loop.simps) simp
    then show ?thesis by simp
  next
    case True
    then obtain e1 s1 where s1:
      "calcMolecularEnergyContribution c s mol mol = Some (e1, s1)"
      "calcSystemEnergy_loop c n (mol + 1) (tot + e1) s1 = Some (e, s')"
      using "1.prems"
      by (subst (asm) calcSystemEnergy_loop.simps) (auto split: option.splits prod.splits)
    have "eventLog s1 = eventLog s \<and> environment s1 = environment s"
      using calcMolecularEnergyContribution_frame [OF s1(1)] by auto
    moreover have "eventLog s' = eventLog s1 \<and> environment s' = environment s1"
      using "1.IH" [OF True s1(1) _ s1(2)] by simp
    ultimately show ?thesis by simp
  qed
qed

lemma calcSystemEnergy_loop_returns:
  assumes "driverReady c s" "0 \<le> mol" "n = moleculeCount s"
  shows "\<exists>e s'. calcSystemEnergy_loop c n mol tot s = Some (e, s') \<and> driverReady c s'
           \<and> moleculeCount s' = moleculeCount s"
  using assms
proof (induction c n mol tot s rule: calcSystemEnergy_loop.induct)
  case (1 c n mol tot s)
  show ?case
  proof (cases "mol < n")
    case False
    then show ?thesis
      using "1.prems"(1) by (subst calcSystemEnergy_loop.simps) simp
  next
    case True
    have b: "batcherReady c s" and e: "energyReady c s"
      and hl: "length (molecules (innerbox s)) = length (moleculesD s)"
      and hok: "list_all (\<lambda>m. countsFit m
                   \<and> primaryAtomIndex (environmentD s) < int (length (atoms m)))
                 (molecules (innerbox s))"
      using "1.prems"(1) unfolding driverReady_def by blast+
    have lt: "mol < moleculeCount s"
      using True "1.prems"(3) by simp
    from calcMolecularEnergyContribution_returns [OF b e "1.prems"(2) lt "1.prems"(2)]
    obtain e1 a d f g where c1:
      "calcMolecularEnergyContribution c s mol mol
         = Some (e1, s\<lparr>nbrMolsD := a, nbrMolsH := a, molBatchH := d,
                         energiesD := f, molBatchD := g\<rparr>)"
      "length a = length (moleculesD s)" "length d = length (moleculesD s)"
      "length f = length (energiesD s)" "length g = length (moleculesD s)"
      by auto
    let ?s1 = "s\<lparr>nbrMolsD := a, nbrMolsH := a, molBatchH := d, energiesD := f, molBatchD := g\<rparr>"
    have r1: "driverReady c ?s1"
      using c1(2-5) hl hok driverReady_device [OF "1.prems"(1)]
      by (intro driverReady_transfer [OF "1.prems"(1)]) simp_all
    have "\<exists>e s'. calcSystemEnergy_loop c n (mol + 1) (tot + e1) ?s1 = Some (e, s')
            \<and> driverReady c s' \<and> moleculeCount s' = moleculeCount ?s1"
      using "1.prems"(2,3) by (intro "1.IH" [OF True c1(1) _ r1]) simp_all
    then show ?thesis
      using True c1(1) by (subst calcSystemEnergy_loop.simps) simp
  qed
qed


lemma runParallel_returns:
  assumes "driverReady c s" "kBoltz c * temperature (environment s) \<noteq> 0"
    and "\<forall>k. 0 \<le> chosen (draws k) \<and> chosen (draws k) < moleculeCount s"
  shows "\<exists>s'. runParallel c u draws steps s = Some s'"
proof -
  let ?kT = "kBoltz c * temperature (environment s)"
  have "\<exists>s1. (if oldEnergy s = 0
               then calcSystemEnergy c s \<bind> (\<lambda>(e, s'). Some (s'\<lparr>oldEnergy := e\<rparr>))
               else Some s) = Some s1
          \<and> driverReady c s1 \<and> moleculeCount s1 = moleculeCount s"
  proof (cases "oldEnergy s = 0")
    case False
    then show ?thesis using assms(1) by simp
  next
    case True
    let ?s0 = "s\<lparr>eventLog := eventLog s @ [FullSystemEnergy]\<rparr>"
    from calcSystemEnergy_loop_returns [OF driverReady_ghost(1) [OF assms(1)], of 0 "moleculeCount s"
           "eventLog s @ [FullSystemEnergy]" 0]
    obtain e s' where l: "calcSystemEnergy_loop c (moleculeCount s) 0 0 ?s0 = Some (e, s')"
      "driverReady c s'" "moleculeCount s' = moleculeCount s"
      by auto
    then have "calcSystemEnergy c s \<bind> (\<lambda>(e, s'). Some (s'\<lparr>oldEnergy := e\<rparr>))
                 = Some (s'\<lparr>oldEnergy := e\<rparr>)"
      by (simp add: calcSystemEnergy_def)
    moreover have "driverReady c (s'\<lparr>oldEnergy := e\<rparr>)"
      by (rule driverReady_ghost(2) [OF l(2)])
    ultimately show ?thesis
      using True l(3) by simp
  qed
  then obtain s1 where s1:
    "(if oldEnergy s = 0
      then calcSystemEnergy c s \<bind> (\<lambda>(e, s'). Some (s'\<lparr>oldEnergy := e\<rparr>))
      else Some s) = Some s1"
    "driverReady c s1" "moleculeCount s1 = moleculeCount s"
    by blast
  have "\<forall>k. 0 \<le> chosen (draws k) \<and> chosen (draws k) < moleculeCount s1"
    using assms(3) s1(3) by simp
  from runParallel_loop_returns [OF s1(2) assms(2) this, of u steps 0]
  obtain s2 where "runParallel_loop c u ?kT draws steps 0 s1 = Some s2"
    by blast
  then show ?thesis
    using s1(1) by (simp add: runParallel_def Let_def)
qed

text \<open>
  C9. Whenever a step of the driver returns, it evaluated the old contribution \<open>Eold\<close>,
  moved the chosen molecule, evaluated the new contribution \<open>Enew\<close> and decided. If it
  accepted, \<^verbatim>\<open>oldEnergy\<close> (the running total) has grown by exactly \<open>Enew - Eold\<close>, the
  accepted counter has been incremented, the rejected counter is unchanged and the box
  holds the moved molecule. If it rejected, \<^verbatim>\<open>Rollback\<close> has been applied to the chosen
  molecule of the moved box, the rejected counter has been incremented, and the accepted
  counter and \<^verbatim>\<open>oldEnergy\<close> are unchanged.
\<close>

theorem runParallel_step_commit_or_rollback:
  assumes "runParallel_step c u kT d s = Some s'"
  shows "\<exists>Eold s1 box s2 Enew s3 acc.
           calcMolecularEnergyContribution c s (chosen d) 0 = Some (Eold, s1)
         \<and> changeMolecule u (perturb d) (innerbox s1) (chosen d) = Some box
         \<and> writeChangeToDevice (s1\<lparr>innerbox := box\<rparr>) (chosen d) = Some s2
         \<and> calcMolecularEnergyContribution c s2 (chosen d) 0 = Some (Enew, s3)
         \<and> acceptMove Enew Eold kT (uniform d) = Some acc
         \<and> (if acc
             then oldEnergy s' = oldEnergy s + (Enew - Eold)
                \<and> accepted s' = accepted s + 1 \<and> rejected s' = rejected s
                \<and> innerbox s' = box
             else oldEnergy s' = oldEnergy s
                \<and> rejected s' = rejected s + 1 \<and> accepted s' = accepted s
                \<and> Rollback box (chosen d) = Some (innerbox s'))"
proof -
  from runParallel_step_cases [OF assms] obtain Eold s1 box s2 Enew s3 acc where st:
    "calcMolecularEnergyContribution c s (chosen d) 0 = Some (Eold, s1)"
    "changeMolecule u (perturb d) (innerbox s1) (chosen d) = Some box"
    "writeChangeToDevice (s1\<lparr>innerbox := box\<rparr>) (chosen d) = Some s2"
    "calcMolecularEnergyContribution c s2 (chosen d) 0 = Some (Enew, s3)"
    "acceptMove Enew Eold kT (uniform d) = Some acc"
    and keep: "oldEnergy s3 = oldEnergy s" "accepted s3 = accepted s" "rejected s3 = rejected s"
      "innerbox s3 = box"
    and fin: "if acc
       then s' = s3\<lparr>accepted := accepted s3 + 1, oldEnergy := oldEnergy s3 + (Enew - Eold)\<rparr>
       else \<exists>box'. Rollback box (chosen d) = Some box'
              \<and> writeChangeToDevice (s3\<lparr>rejected := rejected s3 + 1, innerbox := box'\<rparr>)
                    (chosen d) = Some s'"
    by blast
  have "if acc
        then oldEnergy s' = oldEnergy s + (Enew - Eold)
           \<and> accepted s' = accepted s + 1 \<and> rejected s' = rejected s \<and> innerbox s' = box
        else oldEnergy s' = oldEnergy s
           \<and> rejected s' = rejected s + 1 \<and> accepted s' = accepted s
           \<and> Rollback box (chosen d) = Some (innerbox s')"
  proof (cases acc)
    case True
    with fin keep show ?thesis by simp
  next
    case False
    with fin obtain box' where b: "Rollback box (chosen d) = Some box'"
      "writeChangeToDevice (s3\<lparr>rejected := rejected s3 + 1, innerbox := box'\<rparr>) (chosen d)
         = Some s'"
      by auto
    from writeChangeToDevice_frame [OF b(2)] obtain ms where
      "s' = s3\<lparr>rejected := rejected s3 + 1, innerbox := box', moleculesD := ms\<rparr>"
      by auto
    with False b(1) keep show ?thesis by simp
  qed
  with st show ?thesis by blast
qed

text \<open>
  C2. Whenever \<^verbatim>\<open>runParallel\<close> returns, its log is the log at entry, then one run of
  \<^verbatim>\<open>calcSystemEnergy\<close> if and only if \<^verbatim>\<open>oldEnergy\<close> was 0 at entry, then the steps
  \<open>0, \<dots>, steps - 1\<close> in order: the full system energy is computed at most once, before
  the first step. And whenever a step returns, it has logged no run of
  \<^verbatim>\<open>calcSystemEnergy\<close> and has either left \<^verbatim>\<open>oldEnergy\<close> alone or added \<open>Enew - Eold\<close>,
  the difference of the two single-molecule contributions it evaluated.
\<close>

theorem full_system_energy_at_most_once:
  assumes "runParallel c u draws steps s = Some s'"
  shows "eventLog s'
           = eventLog s @ (if oldEnergy s = 0 then [FullSystemEnergy] else [])
               @ map Step [0..steps - 1]
       \<and> (\<forall>kT d sa sb. runParallel_step c u kT d sa = Some sb \<longrightarrow>
            eventLog sb = eventLog sa
            \<and> (\<exists>Eold s1 box s2 Enew s3.
                  calcMolecularEnergyContribution c sa (chosen d) 0 = Some (Eold, s1)
                \<and> changeMolecule u (perturb d) (innerbox s1) (chosen d) = Some box
                \<and> writeChangeToDevice (s1\<lparr>innerbox := box\<rparr>) (chosen d) = Some s2
                \<and> calcMolecularEnergyContribution c s2 (chosen d) 0 = Some (Enew, s3)
                \<and> (oldEnergy sb = oldEnergy sa + (Enew - Eold) \<or> oldEnergy sb = oldEnergy sa)))"
proof (intro conjI allI impI)
  let ?kT = "kBoltz c * temperature (environment s)"
  from assms obtain s1 s2 where r:
    "(if oldEnergy s = 0
      then calcSystemEnergy c s \<bind> (\<lambda>(e, s'). Some (s'\<lparr>oldEnergy := e\<rparr>))
      else Some s) = Some s1"
    "runParallel_loop c u ?kT draws steps 0 s1 = Some s2"
    "s' = s2\<lparr>currentEnergy := oldEnergy s2\<rparr>"
    by (auto simp: runParallel_def Let_def split: Option.bind_splits)
  have "eventLog s1 = eventLog s @ (if oldEnergy s = 0 then [FullSystemEnergy] else [])"
  proof (cases "oldEnergy s = 0")
    case False
    with r(1) show ?thesis by simp
  next
    case True
    with r(1) obtain e sx where
      "calcSystemEnergy_loop c (moleculeCount s) 0 0
         (s\<lparr>eventLog := eventLog s @ [FullSystemEnergy]\<rparr>) = Some (e, sx)"
      "s1 = sx\<lparr>oldEnergy := e\<rparr>"
      by (auto simp: calcSystemEnergy_def split: Option.bind_splits)
    with calcSystemEnergy_loop_log [OF this(1)] True show ?thesis by simp
  qed
  moreover have "eventLog s2 = eventLog s1 @ map Step [0..steps - 1]"
    by (rule runParallel_loop_log [OF r(2)])
  ultimately show "eventLog s'
           = eventLog s @ (if oldEnergy s = 0 then [FullSystemEnergy] else [])
               @ map Step [0..steps - 1]"
    using r(3) by simp
next
  fix kT d sa sb
  assume st: "runParallel_step c u kT d sa = Some sb"
  show "eventLog sb = eventLog sa"
    by (rule runParallel_step_log [OF st])
  from runParallel_step_cases [OF st] obtain Eold s1 box s2 Enew s3 acc where c:
    "calcMolecularEnergyContribution c sa (chosen d) 0 = Some (Eold, s1)"
    "changeMolecule u (perturb d) (innerbox s1) (chosen d) = Some box"
    "writeChangeToDevice (s1\<lparr>innerbox := box\<rparr>) (chosen d) = Some s2"
    "calcMolecularEnergyContribution c s2 (chosen d) 0 = Some (Enew, s3)"
    and keep: "oldEnergy s3 = oldEnergy sa"
    and fin: "if acc
       then sb = s3\<lparr>accepted := accepted s3 + 1, oldEnergy := oldEnergy s3 + (Enew - Eold)\<rparr>
       else \<exists>box'. Rollback box (chosen d) = Some box'
              \<and> writeChangeToDevice (s3\<lparr>rejected := rejected s3 + 1, innerbox := box'\<rparr>)
                    (chosen d) = Some sb"
    by blast
  have "oldEnergy sb = oldEnergy sa + (Enew - Eold) \<or> oldEnergy sb = oldEnergy sa"
  proof (cases acc)
    case True
    with fin keep show ?thesis by simp
  next
    case False
    with fin obtain box' where
      "writeChangeToDevice (s3\<lparr>rejected := rejected s3 + 1, innerbox := box'\<rparr>) (chosen d)
         = Some sb"
      by auto
    from writeChangeToDevice_frame [OF this] keep show ?thesis by auto
  qed
  with c show "\<exists>Eold s1 box s2 Enew s3.
                  calcMolecularEnergyContribution c sa (chosen d) 0 = Some (Eold, s1)
                \<and> changeMolecule u (perturb d) (innerbox s1) (chosen d) = Some box
                \<and> writeChangeToDevice (s1\<lparr>innerbox := box\<rparr>) (chosen d) = Some s2
                \<and> calcMolecularEnergyContribution c s2 (chosen d) 0 = Some (Enew, s3)
                \<and> (oldEnergy sb = oldEnergy sa + (Enew - Eold) \<or> oldEnergy sb = oldEnergy sa)"
    by blast
qed

lemma exSim_driverReady: "driverReady exConfig exSim"
  by (simp add: driverReady_def batcherReady_def energyReady_def countsFit_def ex_defs
        memset_int_def int32_def)

lemma ex_contribution:
  assumes mols: "moleculesD s = [exMolecule 0 [exAtom 1 1 1], exMolecule 1 [exAtom px 1 1]]"
    and env: "environmentD s = exEnv"
    and sizes: "moleculeCount s = 2" "energyCount s = 2" "maxMolSize s = 1"
    and lens: "length (nbrMolsD s) = 2" "length (nbrMolsH s) = 2" "length (molBatchH s) = 2"
              "length (molBatchD s) = 2"
    and zero: "energiesD s = [0, 0]"
    and px: "1 < px" "px < 6"
  shows "calcMolecularEnergyContribution exConfig s 1 0
           = Some (pairEnergy (exAtom px 1 1) (exAtom 1 1 1) ((px - 1) * (px - 1)),
                   s\<lparr>nbrMolsD := [1, 0], nbrMolsH := [1, 0], molBatchH := [0, - 1],
                     energiesD := [0, 0], molBatchD := [0, - 1]\<rparr>)"
proof -
  have b: "batcherReady exConfig s"
    using mols env sizes lens
    by (simp add: batcherReady_def exConfig_def exEnv_def exMolecule_def memset_int_def int32_def)
  have r2: "periodicR2 (exAtom px 1 1) (exAtom 1 1 1) exEnv = Some ((px - 1) * (px - 1))"
    using px
    by (simp add: periodicR2_def exAtom_def exEnv_def makePeriodic_def makePeriodic_up.simps
          makePeriodic_down.simps)
  have mi: "minimumImageR2 (exAtom px 1 1) (exAtom 1 1 1) exEnv = (px - 1) * (px - 1)"
    using r2 periodicR2_minimumImageR2 [of exEnv "exAtom px 1 1" "exAtom 1 1 1"]
    by (simp add: exEnv_def)
  have "(px - 1) * (px - 1) < 5 * 5"
    using px by (intro mult_strict_mono) simp_all
  then have w: "withinCutoff (moleculesD s) (environmentD s) 1 0"
    using mi by (simp add: withinCutoff_def mols env rd_def exMolecule_def exEnv_def)
  have f: "filter (\<lambda>j. j \<noteq> 1 \<and> withinCutoff (moleculesD s) (environmentD s) 1 j) [0..1] = [0]"
    using w by (simp add: upto_rec1)
  have u: "[0..<2] = [0, Suc 0]"
    by (simp add: upt_rec)
  have n: "length (moleculesD s) = 2"
    by (simp add: mols)
  let ?s1 = "s\<lparr>nbrMolsD := [1, 0], nbrMolsH := [1, 0], molBatchH := [0, - 1]\<rparr>"
  have cb: "createMolBatch exConfig s 1 0 = Some (1, ?s1)"
    using createMolBatch_result [OF b, of 1 0] w
    unfolding sizes n u
    by (simp add: f exConfig_def memset_int_def int32_def)
  have e1: "energyReady exConfig ?s1"
    using mols env sizes lens zero
    by (simp add: energyReady_def exConfig_def exEnv_def exMolecule_def)
  have c0: "cellWrite (moleculesD s) 1 exEnv 2 [0, - 1] 1 0
              = Some (pairEnergy (exAtom px 1 1) (exAtom 1 1 1) ((px - 1) * (px - 1)))"
    using mi by (simp add: cellWrite_def mols activeCell_def exMolecule_def Let_def exAtom_def)
  have c1: "cellWrite (moleculesD s) 1 exEnv 2 [0, - 1] 1 (Suc 0) = None"
    by (simp add: cellWrite_def)
  have be: "calcBatchEnergy exConfig ?s1 1 1
              = Some (pairEnergy (exAtom px 1 1) (exAtom 1 1 1) ((px - 1) * (px - 1)),
                      ?s1\<lparr>energiesD := [0, 0], molBatchD := [0, - 1]\<rparr>)"
    using calcBatchEnergy_result [OF e1, of 1 1]
    by (simp add: sizes env zero u c0 c1 eval_nat_numeral)
  show ?thesis
    using cb be by (simp add: calcMolecularEnergyContribution_def)
qed


lemma exp_minus_one_less_half: "exp (- 1 :: real) < 1 / 2"
proof -
  have "(2::real) < exp 1"
    using exp_lower_Taylor_quadratic [of "1::real"] by simp
  then have "1 / exp (1::real) < 1 / 2"
    by (simp add: field_simps)
  then show ?thesis
    by (simp add: exp_minus field_simps)
qed

lemma ex_step_chain:
  assumes px: "1 < px" "px < 6"
    and d: "chosen d = 1" "perturb d = (\<lambda>as j. exAtom px 1 1)"
    and st: "calcMolecularEnergyContribution exConfig exSim (chosen d) 0 = Some (Eold, s1)"
      "changeMolecule exUninit (perturb d) (innerbox s1) (chosen d) = Some box"
      "writeChangeToDevice (s1\<lparr>innerbox := box\<rparr>) (chosen d) = Some s2"
      "calcMolecularEnergyContribution exConfig s2 (chosen d) 0 = Some (Enew, s3)"
  shows "Eold = 0"
    and "Enew = pairEnergy (exAtom px 1 1) (exAtom 1 1 1) ((px - 1) * (px - 1))"
    and "molecules box = [exMolecule 0 [exAtom 1 1 1], exMolecule 1 [exAtom px 1 1]]"
    and "\<And>bx. Rollback box 1 = Some bx \<Longrightarrow> molecules bx = molecules exBox"
proof -
  let ?S1 = "exSim\<lparr>nbrMolsD := [1, 0], nbrMolsH := [1, 0], molBatchH := [0, - 1],
                  energiesD := [0, 0], molBatchD := [0, - 1]\<rparr>"
  have "calcMolecularEnergyContribution exConfig exSim 1 0
          = Some (pairEnergy (exAtom 2 1 1) (exAtom 1 1 1) ((2 - 1) * (2 - 1)), ?S1)"
    by (rule ex_contribution) (simp_all add: ex_defs)
  with st(1) d(1) have e1: "Eold = pairEnergy (exAtom 2 1 1) (exAtom 1 1 1) ((2 - 1) * (2 - 1))"
    and s1: "s1 = ?S1"
    by simp_all
  show "Eold = 0"
    unfolding e1 by (simp add: pairEnergy_def exAtom_def)
  have rm: "rd (molecules (innerbox s1)) 1 = Some (exMolecule 1 [exAtom 2 1 1])"
    by (simp add: s1 rd_def ex_defs)
  have fit: "countsFit (exMolecule 1 [exAtom 2 1 1])"
    by (simp add: countsFit_def exMolecule_def)
  let ?m = "exMolecule 1 [exAtom 2 1 1]"
  from changeMolecule_result [OF rm fit, of exUninit "perturb d"] st(2) d
  obtain c' where box: "box = (innerbox s1)\<lparr>changedmole := c',
       molecules := (molecules (innerbox s1))[nat 1 := exMolecule 1 [exAtom px 1 1]]\<rparr>"
    and chk: "observable c' = observable ?m"
      "length (atoms c') = nat (numOfAtoms ?m)" "length (bonds c') = nat (numOfBonds ?m)"
      "length (angles c') = nat (numOfAngles ?m)"
      "length (dihedrals c') = nat (numOfDihedrals ?m)"
      "length (hops c') = nat (numOfHops ?m)"
    by (auto simp: exMolecule_def upt_rec)
  show mb: "molecules box = [exMolecule 0 [exAtom 1 1 1], exMolecule 1 [exAtom px 1 1]]"
    by (simp add: box s1 exSim_def exBox_def)
  have s2: "s2 = s1\<lparr>innerbox := box, moleculesD := molecules box\<rparr>"
    using st(3) d(1) by (simp add: writeChangeToDevice_def rd_def wr_def mb s1 exSim_def exBox_def)
  have "calcMolecularEnergyContribution exConfig s2 1 0
          = Some (pairEnergy (exAtom px 1 1) (exAtom 1 1 1) ((px - 1) * (px - 1)),
                  s2\<lparr>nbrMolsD := [1, 0], nbrMolsH := [1, 0], molBatchH := [0, - 1],
                     energiesD := [0, 0], molBatchD := [0, - 1]\<rparr>)"
    using px by (intro ex_contribution) (simp_all add: s2 mb s1 exSim_def)
  with st(4) d(1) show "Enew = pairEnergy (exAtom px 1 1) (exAtom 1 1 1) ((px - 1) * (px - 1))"
    by simp
  show "molecules bx = molecules exBox" if rb: "Rollback box 1 = Some bx" for bx
  proof -
    have rm': "rd (molecules box) 1 = Some (exMolecule 1 [exAtom px 1 1])"
      by (simp add: mb rd_def)
    have same: "sameArrays (exMolecule 1 [exAtom px 1 1]) ?m"
      by (simp add: sameArrays_def exMolecule_def)
    have cm: "changedmole box = c'"
      by (simp add: box)
    from Rollback_result [OF rm' _ _ _ _ _ _ fit same] chk
    obtain r where r: "Rollback box 1 = Some (box\<lparr>molecules := (molecules box)[nat 1 := r]\<rparr>)"
      "observable r = observable ?m" "sameArrays r ?m"
      unfolding cm by auto
    have "r = ?m"
      using r(2,3) by (intro Molecule.equality) (auto simp: observable_def sameArrays_def
            exMolecule_def)
    then show ?thesis
      using rb r(1) by (auto simp: mb exBox_def)
  qed
qed

theorem runParallel_step_commit_or_rollback_witness:
  "(\<exists>s'. runParallel_step exConfig exUninit 1 exDrawsNear exSim = Some s'
       \<and> oldEnergy s' = oldEnergy exSim \<and> rejected s' = rejected exSim + 1
       \<and> accepted s' = accepted exSim
       \<and> molecules (innerbox s') = molecules (innerbox exSim))
   \<and> (\<exists>s'. runParallel_step exConfig exUninit 1 exDrawsAway exSim = Some s'
       \<and> oldEnergy s' = oldEnergy exSim + (- 63 / 1024 - 0) \<and> accepted s' = accepted exSim + 1
       \<and> rejected s' = rejected exSim
       \<and> molecules (innerbox s') = [exMolecule 0 [exAtom 1 1 1], exMolecule 1 [exAtom 3 1 1]])"
proof (intro conjI)
  have idx: "0 \<le> chosen exDrawsNear" "chosen exDrawsNear < moleculeCount exSim"
    by (simp_all add: exDrawsNear_def exSim_def)
  from runParallel_step_returns [OF exSim_driverReady idx, of 1 exUninit]
  obtain s' where s': "runParallel_step exConfig exUninit 1 exDrawsNear exSim = Some s'"
    by auto
  from runParallel_step_commit_or_rollback [OF s']
  obtain Eold s1 box s2 Enew s3 acc where st:
    "calcMolecularEnergyContribution exConfig exSim (chosen exDrawsNear) 0 = Some (Eold, s1)"
    "changeMolecule exUninit (perturb exDrawsNear) (innerbox s1) (chosen exDrawsNear) = Some box"
    "writeChangeToDevice (s1\<lparr>innerbox := box\<rparr>) (chosen exDrawsNear) = Some s2"
    "calcMolecularEnergyContribution exConfig s2 (chosen exDrawsNear) 0 = Some (Enew, s3)"
    "acceptMove Enew Eold 1 (uniform exDrawsNear) = Some acc"
    and fin: "if acc
       then oldEnergy s' = oldEnergy exSim + (Enew - Eold)
          \<and> accepted s' = accepted exSim + 1 \<and> rejected s' = rejected exSim
          \<and> innerbox s' = box
       else oldEnergy s' = oldEnergy exSim
          \<and> rejected s' = rejected exSim + 1 \<and> accepted s' = accepted exSim
          \<and> Rollback box (chosen exDrawsNear) = Some (innerbox s')"
    by blast
  have d: "chosen exDrawsNear = 1" "perturb exDrawsNear = (\<lambda>as j. exAtom (3 / 2) 1 1)"
    by (simp_all add: exDrawsNear_def)
  have px: "(1::real) < 3 / 2" "(3 / 2 :: real) < 6"
    by simp_all
  note ch = ex_step_chain [OF px d st(1-4)]
  have en: "Enew = 16128"
    unfolding ch(2) by (simp add: pairEnergy_def exAtom_def power_divide)
  have "exp (- 16128 :: real) \<le> exp (- 1)"
    by simp
  then have "exp (- 16128 :: real) < 1 / 2"
    using exp_minus_one_less_half by linarith
  then have "acceptMove 16128 0 1 (1 / 2) = Some False"
    by (simp add: acceptMove_def rdiv_def)
  with st(5) en ch(1) have "\<not> acc"
    by (simp add: exDrawsNear_def)
  with fin have r: "oldEnergy s' = oldEnergy exSim" "rejected s' = rejected exSim + 1"
    "accepted s' = accepted exSim" "Rollback box 1 = Some (innerbox s')"
    by (simp_all add: d)
  have "molecules (innerbox s') = molecules (innerbox exSim)"
    using ch(4) [OF r(4)] by (simp add: exSim_def)
  with s' r show "\<exists>s'. runParallel_step exConfig exUninit 1 exDrawsNear exSim = Some s'
       \<and> oldEnergy s' = oldEnergy exSim \<and> rejected s' = rejected exSim + 1
       \<and> accepted s' = accepted exSim
       \<and> molecules (innerbox s') = molecules (innerbox exSim)"
    by blast
next
  have idx: "0 \<le> chosen exDrawsAway" "chosen exDrawsAway < moleculeCount exSim"
    by (simp_all add: exDrawsAway_def exSim_def)
  from runParallel_step_returns [OF exSim_driverReady idx, of 1 exUninit]
  obtain s' where s': "runParallel_step exConfig exUninit 1 exDrawsAway exSim = Some s'"
    by auto
  from runParallel_step_commit_or_rollback [OF s']
  obtain Eold s1 box s2 Enew s3 acc where st:
    "calcMolecularEnergyContribution exConfig exSim (chosen exDrawsAway) 0 = Some (Eold, s1)"
    "changeMolecule exUninit (perturb exDrawsAway) (innerbox s1) (chosen exDrawsAway) = Some box"
    "writeChangeToDevice (s1\<lparr>innerbox := box\<rparr>) (chosen exDrawsAway) = Some s2"
    "calcMolecularEnergyContribution exConfig s2 (chosen exDrawsAway) 0 = Some (Enew, s3)"
    "acceptMove Enew Eold 1 (uniform exDrawsAway) = Some acc"
    and fin: "if acc
       then oldEnergy s' = oldEnergy exSim + (Enew - Eold)
          \<and> accepted s' = accepted exSim + 1 \<and> rejected s' = rejected exSim
          \<and> innerbox s' = box
       else oldEnergy s' = oldEnergy exSim
          \<and> rejected s' = rejected exSim + 1 \<and> accepted s' = accepted exSim
          \<and> Rollback box (chosen exDrawsAway) = Some (innerbox s')"
    by blast
  have d: "chosen exDrawsAway = 1" "perturb exDrawsAway = (\<lambda>as j. exAtom 3 1 1)"
    by (simp_all add: exDrawsAway_def)
  have px: "(1::real) < 3" "(3::real) < 6"
    by simp_all
  note ch = ex_step_chain [OF px d st(1-4)]
  have en: "Enew = - 63 / 1024"
    unfolding ch(2) by (simp add: pairEnergy_def exAtom_def power_divide)
  have "acceptMove (- 63 / 1024) 0 1 (1 / 2) = Some True"
    by (simp add: acceptMove_def)
  with st(5) en ch(1) have acc
    by (simp add: exDrawsAway_def)
  with fin en ch(1) have r: "oldEnergy s' = oldEnergy exSim + (- 63 / 1024 - 0)"
    "accepted s' = accepted exSim + 1" "rejected s' = rejected exSim" "innerbox s' = box"
    by simp_all
  with s' ch(3) show "\<exists>s'. runParallel_step exConfig exUninit 1 exDrawsAway exSim = Some s'
       \<and> oldEnergy s' = oldEnergy exSim + (- 63 / 1024 - 0) \<and> accepted s' = accepted exSim + 1
       \<and> rejected s' = rejected exSim
       \<and> molecules (innerbox s') = [exMolecule 0 [exAtom 1 1 1], exMolecule 1 [exAtom 3 1 1]]"
    by auto
qed


theorem full_system_energy_at_most_once_witness:
  "(\<exists>s'. runParallel exConfig exUninit (\<lambda>k. exDrawsNear) 2 exSim = Some s'
       \<and> oldEnergy exSim = 0
       \<and> eventLog s' = [FullSystemEnergy, Step 0, Step 1])
   \<and> (\<exists>s'. runParallel exConfig exUninit (\<lambda>k. exDrawsNear) 2 (exSim\<lparr>oldEnergy := 5\<rparr>) = Some s'
       \<and> eventLog s' = [Step 0, Step 1])
   \<and> (\<exists>sb. runParallel_step exConfig exUninit 1 exDrawsAway exSim = Some sb
       \<and> eventLog sb = eventLog exSim)"
proof (intro conjI)
  have kT: "kBoltz exConfig * temperature (environment exSim) \<noteq> 0"
    by (simp add: ex_defs)
  have dr: "\<forall>k::nat. 0 \<le> chosen exDrawsNear \<and> chosen exDrawsNear < moleculeCount exSim"
    by (simp add: exDrawsNear_def exSim_def)
  have up: "[0..2 - 1] = [0, 1::int]"
    by (simp add: upto_rec1)
  from runParallel_returns [OF exSim_driverReady kT, of "\<lambda>k. exDrawsNear" exUninit 2] dr
  obtain s' where s': "runParallel exConfig exUninit (\<lambda>k. exDrawsNear) 2 exSim = Some s'"
    by auto
  have "eventLog s' = [FullSystemEnergy, Step 0, Step 1]"
    using full_system_energy_at_most_once [OF s'] unfolding up
    by (simp add: exSim_def)
  with s' show "\<exists>s'. runParallel exConfig exUninit (\<lambda>k. exDrawsNear) 2 exSim = Some s'
       \<and> oldEnergy exSim = 0 \<and> eventLog s' = [FullSystemEnergy, Step 0, Step 1]"
    by (auto simp: exSim_def)
  let ?s5 = "exSim\<lparr>oldEnergy := 5\<rparr>"
  have r5: "driverReady exConfig ?s5"
    by (rule driverReady_ghost(2) [OF exSim_driverReady])
  have kT5: "kBoltz exConfig * temperature (environment ?s5) \<noteq> 0"
    by (simp add: ex_defs)
  have dr5: "\<forall>k::nat. 0 \<le> chosen exDrawsNear \<and> chosen exDrawsNear < moleculeCount ?s5"
    by (simp add: exDrawsNear_def exSim_def)
  from runParallel_returns [OF r5 kT5, of "\<lambda>k. exDrawsNear" exUninit 2] dr5
  obtain s5' where s5': "runParallel exConfig exUninit (\<lambda>k. exDrawsNear) 2 ?s5 = Some s5'"
    by auto
  have "eventLog s5' = [Step 0, Step 1]"
    using full_system_energy_at_most_once [OF s5'] unfolding up
    by (simp add: exSim_def)
  with s5' show "\<exists>s'. runParallel exConfig exUninit (\<lambda>k. exDrawsNear) 2 ?s5 = Some s'
       \<and> eventLog s' = [Step 0, Step 1]"
    by blast
  have idx: "0 \<le> chosen exDrawsAway" "chosen exDrawsAway < moleculeCount exSim"
    by (simp_all add: exDrawsAway_def exSim_def)
  from runParallel_step_returns [OF exSim_driverReady idx, of 1 exUninit]
  obtain sb where sb: "runParallel_step exConfig exUninit 1 exDrawsAway exSim = Some sb"
    by auto
  have "eventLog sb = eventLog exSim"
    using full_system_energy_at_most_once [OF s'] sb by blast
  with sb show "\<exists>sb. runParallel_step exConfig exUninit 1 exDrawsAway exSim = Some sb
       \<and> eventLog sb = eventLog exSim"
    by blast
qed

end
